theory Spec2Isabelle
  imports Complex_Main "HOL-Library.Word"
begin

unbundle bit_operations_syntax

section \<open>Truck load monitor: machine data\<close>

text \<open>
  The sketch runs on an Arduino Uno (ATmega328P, avr-gcc): \<open>int\<close> is a 16-bit two's
  complement integer, \<open>byte\<close> is an unsigned 8-bit integer, \<open>float\<close> is an IEEE-754
  binary32 value stored little-endian. A \<open>float\<close> is modelled by its 32-bit pattern.
  The EEPROM is a byte store addressed by an \<open>int\<close> address.
\<close>

type_synonym byte = "8 word"
type_synonym int16 = "16 word"
type_synonym float = "32 word"
type_synonym eeprom = "int \<Rightarrow> byte"

subsection \<open>IEEE-754 binary32 values\<close>

text \<open>
  Bit 31 is the sign, bits 30..23 the biased exponent, bits 22..0 the fraction.
  \<open>fl_mag\<close> is the 31-bit magnitude pattern; on values that are not NaN the order of
  the floats is the order of the signed magnitudes (\<open>fl_key\<close>), and both zeros have key 0.
\<close>

definition fl_sign :: "float \<Rightarrow> bool" where
  "fl_sign f = (2 ^ 31 \<le> unat f)"

definition fl_mag :: "float \<Rightarrow> nat" where
  "fl_mag f = unat f mod 2 ^ 31"

definition fl_exp :: "float \<Rightarrow> nat" where
  "fl_exp f = fl_mag f div 2 ^ 23"

definition fl_frac :: "float \<Rightarrow> nat" where
  "fl_frac f = fl_mag f mod 2 ^ 23"

definition isnan :: "float \<Rightarrow> bool" where
  "isnan f = (0x7F800000 < fl_mag f)"

definition isinf :: "float \<Rightarrow> bool" where
  "isinf f = (fl_mag f = 0x7F800000)"

definition fl_key :: "float \<Rightarrow> int" where
  "fl_key f = (if fl_sign f then - int (fl_mag f) else int (fl_mag f))"

text \<open>The comparisons \<open><\<close>, \<open>>\<close> and \<open>==\<close> of C on floats: false when an operand is NaN.\<close>

definition fl_lt :: "float \<Rightarrow> float \<Rightarrow> bool" where
  "fl_lt a b = (\<not> isnan a \<and> \<not> isnan b \<and> fl_key a < fl_key b)"

definition fl_gt :: "float \<Rightarrow> float \<Rightarrow> bool" where
  "fl_gt a b = fl_lt b a"

definition fl_eq :: "float \<Rightarrow> float \<Rightarrow> bool" where
  "fl_eq a b = (\<not> isnan a \<and> \<not> isnan b \<and> fl_key a = fl_key b)"

text \<open>Unary minus flips the sign bit.\<close>

definition fl_neg :: "float \<Rightarrow> float" where
  "fl_neg f = f XOR 0x80000000"

text \<open>
  The magnitude of a finite float, counted in units of \<open>2^-149\<close> (the smallest
  subnormal): every finite binary32 value is a whole number of such units.
\<close>

definition fl_units :: "float \<Rightarrow> nat" where
  "fl_units f =
     (if fl_exp f = 0 then fl_frac f else (2 ^ 23 + fl_frac f) * 2 ^ (fl_exp f - 1))"

text \<open>
  The same count as a function of the magnitude pattern alone, and the signed value
  of a float in units of \<open>2^-149\<close>.
\<close>

definition units_of_mag :: "nat \<Rightarrow> nat" where
  "units_of_mag m =
     (if m div 2 ^ 23 = 0 then m mod 2 ^ 23 else (2 ^ 23 + m mod 2 ^ 23) * 2 ^ (m div 2 ^ 23 - 1))"

definition fl_value :: "float \<Rightarrow> int" where
  "fl_value f = (if fl_sign f then - int (fl_units f) else int (fl_units f))"

text \<open>
  Rounding to nearest, ties to even. \<open>round_units n d\<close> is the magnitude pattern of the
  binary32 value nearest to \<open>n/d\<close> units; a result beyond the largest finite value is
  the pattern of infinity.
\<close>

fun nbits :: "nat \<Rightarrow> nat" where
  "nbits n = (if n = 0 then 0 else Suc (nbits (n div 2)))"

declare nbits.simps [simp del]

definition rne :: "nat \<Rightarrow> nat \<Rightarrow> nat" where
  "rne n d =
     (let q = n div d; r = n mod d
      in if 2 * r < d then q else if d < 2 * r then q + 1 else if even q then q else q + 1)"

definition round_units :: "nat \<Rightarrow> nat \<Rightarrow> nat" where
  "round_units n d =
     (let k = nbits (n div d) - 24
      in min (k * 2 ^ 23 + rne n (d * 2 ^ k)) 0x7F800000)"

definition mk_float :: "bool \<Rightarrow> nat \<Rightarrow> float" where
  "mk_float sg m = of_nat ((if sg then 2 ^ 31 else 0) + m)"

definition fl_NaN :: float where
  "fl_NaN = 0x7FC00000"

text \<open>The float division \<open>a / b\<close> of C.\<close>

definition fdiv :: "float \<Rightarrow> float \<Rightarrow> float" where
  "fdiv a b =
     (let sg = (fl_sign a \<noteq> fl_sign b)
      in if isnan a \<or> isnan b then fl_NaN
         else if isinf a then (if isinf b then fl_NaN else mk_float sg 0x7F800000)
         else if isinf b then mk_float sg 0
         else if fl_mag b = 0 then (if fl_mag a = 0 then fl_NaN else mk_float sg 0x7F800000)
         else if fl_mag a = 0 then mk_float sg 0
         else mk_float sg (round_units (fl_units a * 2 ^ 149) (fl_units b)))"

text \<open>The float addition \<open>a + b\<close> of C.\<close>

definition fadd :: "float \<Rightarrow> float \<Rightarrow> float" where
  "fadd a b =
     (if isnan a \<or> isnan b then fl_NaN
      else if isinf a then (if isinf b \<and> fl_sign a \<noteq> fl_sign b then fl_NaN else a)
      else if isinf b then b
      else
        (let t = (if fl_sign a then - int (fl_units a) else int (fl_units a))
               + (if fl_sign b then - int (fl_units b) else int (fl_units b))
         in if t = 0 then mk_float (fl_sign a \<and> fl_sign b) 0
            else mk_float (t < 0) (round_units (nat \<bar>t\<bar>) 1)))"

text \<open>
  A float is finite when it is neither an infinity nor a NaN. A whole number of units
  (of either sign) fits a binary32 value when its magnitude has at most 24 significant
  bits and lies in the finite range; a list of values has representable partial sums
  from \<open>t\<close> when every sum met on the way fits.
\<close>

definition fl_finite :: "float \<Rightarrow> bool" where
  "fl_finite f = (fl_mag f < 0x7F800000)"

definition representable :: "int \<Rightarrow> bool" where
  "representable t =
     (let n = nat \<bar>t\<bar> in nbits n \<le> 277 \<and> n mod 2 ^ (nbits n - 24) = 0)"

fun sums_representable :: "int \<Rightarrow> int list \<Rightarrow> bool" where
  "sums_representable t [] = True"
| "sums_representable t (v # vs) = (representable (t + v) \<and> sums_representable (t + v) vs)"

text \<open>
  \<open>String::toFloat\<close> on the strings the keypad can build (decimal digits and a
  decimal point, no sign and no exponent): the digits before and after the first
  point are read as a decimal fraction and rounded to binary32; a string that does
  not start with a number yields 0.
\<close>

definition is_digit :: "char \<Rightarrow> bool" where
  "is_digit c = (48 \<le> (of_char c :: nat) \<and> (of_char c :: nat) \<le> 57)"

fun decimal :: "nat \<Rightarrow> string \<Rightarrow> nat" where
  "decimal acc [] = acc"
| "decimal acc (c # cs) = decimal (10 * acc + ((of_char c :: nat) - 48)) cs"

definition toFloat :: "string \<Rightarrow> float" where
  "toFloat str =
     (let ip = takeWhile is_digit str;
          rest = dropWhile is_digit str;
          fp = (case rest of [] \<Rightarrow> [] | c # r \<Rightarrow> if c = CHR ''.'' then takeWhile is_digit r else []);
          n = decimal 0 (ip @ fp)
      in if n = 0 then 0 else mk_float False (round_units (n * 2 ^ 149) (10 ^ length fp)))"

text \<open>The constants of the sketch as binary32 patterns: \<open>0.5\<close> and \<open>-7050\<close>.\<close>

definition fl_half :: float where
  "fl_half = 0x3F000000"

definition default_calibration_factor :: float where
  "default_calibration_factor = 0xC5DC5000"

text \<open>The macro \<open>abs(x)\<close> of Arduino.h: \<open>((x)>0?(x):-(x))\<close>.\<close>

definition fl_abs :: "float \<Rightarrow> float" where
  "fl_abs x = (if fl_gt x 0 then x else fl_neg x)"

subsection \<open>EEPROM library calls\<close>

text \<open>\<open>EEPROM.update(address, b)\<close>: the cell is written only when it differs.\<close>

definition EEPROM_update :: "eeprom \<Rightarrow> int \<Rightarrow> byte \<Rightarrow> eeprom" where
  "EEPROM_update e address b = (if e address = b then e else e(address := b))"

definition EEPROM_read :: "eeprom \<Rightarrow> int \<Rightarrow> byte" where
  "EEPROM_read e address = e address"

subsection \<open>EEPROM read/write functions of the sketch\<close>

text \<open>
  \<open>EEPROMWriteInt\<close>: \<open>lowByte = value & 0xFF\<close>, \<open>highByte = (value >> 8) & 0xFF\<close>
  (\<open>>>\<close> on a signed \<open>int\<close> is the arithmetic shift of avr-gcc), then two updates.
\<close>

definition EEPROMWriteInt :: "eeprom \<Rightarrow> int \<Rightarrow> int16 \<Rightarrow> eeprom" where
  "EEPROMWriteInt e address v =
     (let lowByte = (ucast (v AND 0xFF) :: byte);
          highByte = (ucast (signed_drop_bit 8 v AND 0xFF) :: byte);
          e1 = EEPROM_update e address lowByte
      in EEPROM_update e1 (address + 1) highByte)"

text \<open>\<open>EEPROMReadInt\<close>: \<open>(highByte << 8) | lowByte\<close>, both bytes promoted to \<open>int\<close>.\<close>

definition EEPROMReadInt :: "eeprom \<Rightarrow> int \<Rightarrow> int16" where
  "EEPROMReadInt e address =
     (let lowByte = EEPROM_read e address;
          highByte = EEPROM_read e (address + 1)
      in push_bit 8 (ucast highByte :: int16) OR (ucast lowByte :: int16))"

text \<open>
  \<open>EEPROMWriteFloat\<close> and \<open>EEPROMReadFloat\<close> go through the four bytes of the value in
  memory, \<open>floatBytes[i]\<close> for \<open>i = 0..3\<close>, least significant byte first.
\<close>

definition get_byte :: "float \<Rightarrow> nat \<Rightarrow> byte" where
  "get_byte v i = ucast (drop_bit (8 * i) v)"

definition set_byte :: "float \<Rightarrow> nat \<Rightarrow> byte \<Rightarrow> float" where
  "set_byte v i b = (v AND NOT (push_bit (8 * i) 0xFF)) OR push_bit (8 * i) (ucast b)"

function write_float_loop :: "eeprom \<Rightarrow> int \<Rightarrow> float \<Rightarrow> nat \<Rightarrow> eeprom" where
  "write_float_loop e address v i =
     (if i < 4 then write_float_loop (EEPROM_update e (address + int i) (get_byte v i)) address v (i + 1)
      else e)"
  by pat_completeness auto
termination
  by (relation "measure (\<lambda>(e, address, v, i). 4 - i)") auto

declare write_float_loop.simps [simp del]

definition EEPROMWriteFloat :: "eeprom \<Rightarrow> int \<Rightarrow> float \<Rightarrow> eeprom" where
  "EEPROMWriteFloat e address v = write_float_loop e address v 0"

function read_float_loop :: "eeprom \<Rightarrow> int \<Rightarrow> float \<Rightarrow> nat \<Rightarrow> float" where
  "read_float_loop e address v i =
     (if i < 4 then read_float_loop e address (set_byte v i (EEPROM_read e (address + int i))) (i + 1)
      else v)"
  by pat_completeness auto
termination
  by (relation "measure (\<lambda>(e, address, v, i). 4 - i)") auto

declare read_float_loop.simps [simp del]

definition EEPROMReadFloat :: "eeprom \<Rightarrow> int \<Rightarrow> float" where
  "EEPROMReadFloat e address = read_float_loop e address 0 0"

section \<open>Program state\<close>

text \<open>
  The global variables of the sketch and the contents of the EEPROM. The HX711
  driver, the display and the touch digitizer are outside: a tick of \<open>loop\<close> takes
  what they return as arguments (the sample of \<open>scale.get_units()\<close>, the touch point
  after \<open>map\<close> when the pressure is above the threshold, and the value of
  \<open>scale.read_average(10)\<close>), and calls that only draw have no effect on the state.
\<close>

record state =
  calibration_factor :: float
  last_weight :: float
  current_weight :: float
  total_weight :: float
  load_count :: int16
  load_detected :: bool
  isCalibrating :: bool
  enteredWeight :: string
  eeprom_store :: eeprom

abbreviation (input) EEPROM_LOAD_COUNT_ADDR :: int where "EEPROM_LOAD_COUNT_ADDR \<equiv> 0"
abbreviation (input) EEPROM_TOTAL_WEIGHT_ADDR :: int where "EEPROM_TOTAL_WEIGHT_ADDR \<equiv> 2"
abbreviation (input) EEPROM_CAL_FACTOR_ADDR :: int where "EEPROM_CAL_FACTOR_ADDR \<equiv> 6"

abbreviation (input) BUTTON_W :: int where "BUTTON_W \<equiv> 100"
abbreviation (input) BUTTON_H :: int where "BUTTON_H \<equiv> 40"
abbreviation (input) TARE_BUTTON_X :: int where "TARE_BUTTON_X \<equiv> 10"
abbreviation (input) TARE_BUTTON_Y :: int where "TARE_BUTTON_Y \<equiv> 200"
abbreviation (input) STORE_BUTTON_X :: int where "STORE_BUTTON_X \<equiv> 120"
abbreviation (input) STORE_BUTTON_Y :: int where "STORE_BUTTON_Y \<equiv> 200"
abbreviation (input) RESET_BUTTON_X :: int where "RESET_BUTTON_X \<equiv> 230"
abbreviation (input) RESET_BUTTON_Y :: int where "RESET_BUTTON_Y \<equiv> 200"
abbreviation (input) CALIBRATE_BUTTON_X :: int where "CALIBRATE_BUTTON_X \<equiv> 340"
abbreviation (input) CALIBRATE_BUTTON_Y :: int where "CALIBRATE_BUTTON_Y \<equiv> 200"

subsection \<open>Start-up\<close>

text \<open>
  \<open>setup()\<close> (named \<open>setup_sketch\<close> here, \<open>setup\<close> being a keyword of Isabelle): the
  globals have their initialisers; the calibration factor, the load count and the
  total weight are read from the EEPROM. The literal \<open>-7050\<close> converts to the float
  \<open>-7050.0\<close>.
\<close>

definition setup_sketch :: "eeprom \<Rightarrow> state" where
  "setup_sketch e =
     (let cf = EEPROMReadFloat e EEPROM_CAL_FACTOR_ADDR;
          cf' = (if isnan cf \<or> fl_eq cf 0 then default_calibration_factor else cf)
      in \<lparr> calibration_factor = cf',
           last_weight = 0,
           current_weight = 0,
           total_weight = EEPROMReadFloat e EEPROM_TOTAL_WEIGHT_ADDR,
           load_count = EEPROMReadInt e EEPROM_LOAD_COUNT_ADDR,
           load_detected = False,
           isCalibrating = False,
           enteredWeight = [],
           eeprom_store = e \<rparr>)"

subsection \<open>Load event detector\<close>

text \<open>The filter around zero: \<open>if (abs(current_weight) < 0.5) current_weight = 0\<close>.\<close>

definition noise_gate :: "float \<Rightarrow> float" where
  "noise_gate w = (if fl_lt (fl_abs w) fl_half then 0 else w)"

text \<open>The detection step on the filtered \<open>current_weight\<close>.\<close>

definition detect :: "state \<Rightarrow> state" where
  "detect s =
     (if fl_gt (current_weight s) 0 then
        s\<lparr>load_detected := True, last_weight := current_weight s\<rparr>
      else if fl_eq (current_weight s) 0 \<and> load_detected s then
        s\<lparr>total_weight := fadd (total_weight s) (last_weight s),
          load_count := load_count s + 1,
          last_weight := 0,
          load_detected := False\<rparr>
      else s)"

definition sense :: "state \<Rightarrow> float \<Rightarrow> state" where
  "sense s w = detect (s\<lparr>current_weight := noise_gate w\<rparr>)"

subsection \<open>Buttons\<close>

datatype action = Tare | Store | Reset | Calibrate | NoAction

text \<open>The chain of hit tests of \<open>loop\<close>, first match wins.\<close>

definition button_action :: "int \<Rightarrow> int \<Rightarrow> action" where
  "button_action x y =
     (if x > TARE_BUTTON_X \<and> x < (TARE_BUTTON_X + BUTTON_W)
         \<and> y > TARE_BUTTON_Y \<and> y < (TARE_BUTTON_Y + BUTTON_H) then Tare
      else if x > STORE_BUTTON_X \<and> x < (STORE_BUTTON_X + BUTTON_W)
         \<and> y > STORE_BUTTON_Y \<and> y < (STORE_BUTTON_Y + BUTTON_H) then Store
      else if x > RESET_BUTTON_X \<and> x < (RESET_BUTTON_X + BUTTON_W)
         \<and> y > RESET_BUTTON_Y \<and> y < (RESET_BUTTON_Y + BUTTON_H) then Reset
      else if x > CALIBRATE_BUTTON_X \<and> x < (CALIBRATE_BUTTON_X + BUTTON_W)
         \<and> y > CALIBRATE_BUTTON_Y \<and> y < (CALIBRATE_BUTTON_Y + BUTTON_H) then Calibrate
      else NoAction)"

definition tare_action :: "state \<Rightarrow> state" where
  "tare_action s = s\<lparr>current_weight := 0, last_weight := 0, load_detected := False\<rparr>"

definition store_action :: "state \<Rightarrow> state" where
  "store_action s =
     s\<lparr>eeprom_store := EEPROMWriteFloat
                   (EEPROMWriteInt (eeprom_store s) EEPROM_LOAD_COUNT_ADDR (load_count s))
                   EEPROM_TOTAL_WEIGHT_ADDR (total_weight s)\<rparr>"

text \<open>Reset: the five assignments, then the two writes of the values just assigned.\<close>

definition reset_action :: "state \<Rightarrow> state" where
  "reset_action s =
     (let s1 = s\<lparr>total_weight := 0, load_count := 0, last_weight := 0,
                 current_weight := 0, load_detected := False\<rparr>;
          e1 = EEPROMWriteInt (eeprom_store s1) EEPROM_LOAD_COUNT_ADDR (load_count s1);
          e2 = EEPROMWriteFloat e1 EEPROM_TOTAL_WEIGHT_ADDR (total_weight s1)
      in s1\<lparr>eeprom_store := e2\<rparr>)"

subsection \<open>Keypad\<close>

definition keys :: "char list list" where
  "keys = [[CHR ''1'', CHR ''2'', CHR ''3''],
           [CHR ''4'', CHR ''5'', CHR ''6''],
           [CHR ''7'', CHR ''8'', CHR ''9''],
           [CHR ''.'', CHR ''0'', CHR ''E'']]"

abbreviation (input) startX :: int where "startX \<equiv> 240"
abbreviation (input) startY :: int where "startY \<equiv> 40"
abbreviation (input) keyW :: int where "keyW \<equiv> 60"
abbreviation (input) keyH :: int where "keyH \<equiv> 40"
abbreviation (input) spacing :: int where "spacing \<equiv> 10"

text \<open>The inner and the outer \<open>for\<close> loop of \<open>getKeypadInput\<close>; \<open>Some k\<close> is \<open>return k\<close>.\<close>

function keypad_cols :: "int \<Rightarrow> int \<Rightarrow> nat \<Rightarrow> nat \<Rightarrow> char option" where
  "keypad_cols x y row col =
     (if col < 3 then
        (let btnX = startX + int col * (keyW + spacing);
             btnY = startY + int row * (keyH + spacing)
         in if x > btnX \<and> x < (btnX + keyW) \<and> y > btnY \<and> y < (btnY + keyH)
            then Some (keys ! row ! col)
            else keypad_cols x y row (col + 1))
      else None)"
  by pat_completeness auto
termination
  by (relation "measure (\<lambda>(x, y, row, col). 3 - col)") auto

declare keypad_cols.simps [simp del]

function keypad_rows :: "int \<Rightarrow> int \<Rightarrow> nat \<Rightarrow> char option" where
  "keypad_rows x y row =
     (if row < 4 then
        (case keypad_cols x y row 0 of
           Some k \<Rightarrow> Some k
         | None \<Rightarrow> keypad_rows x y (row + 1))
      else None)"
  by pat_completeness auto
termination
  by (relation "measure (\<lambda>(x, y, row). 4 - row)") auto

declare keypad_rows.simps [simp del]

text \<open>The character 0 is "no key pressed".\<close>

definition getKeypadInput :: "int \<Rightarrow> int \<Rightarrow> char" where
  "getKeypadInput x y =
     (case keypad_rows x y 0 of
        Some k \<Rightarrow> k
      | None \<Rightarrow>
         (let btnX = startX;
              btnY = startY + 4 * (keyH + spacing);
              btnW = keyW * 3 + spacing * 2;
              btnH = keyH
          in if x > btnX \<and> x < (btnX + btnW) \<and> y > btnY \<and> y < (btnY + btnH)
             then CHR ''C'' else CHR 0x00))"

subsection \<open>Calibration\<close>

text \<open>The body of \<open>if (key != 0)\<close> in \<open>handleCalibration\<close>.\<close>

definition keypress :: "state \<Rightarrow> char \<Rightarrow> float \<Rightarrow> state" where
  "keypress s key rawValue =
     (if is_digit key then s\<lparr>enteredWeight := enteredWeight s @ [key]\<rparr>
      else if key = CHR ''.'' then
        (if CHR ''.'' \<notin> set (enteredWeight s)
         then s\<lparr>enteredWeight := enteredWeight s @ [key]\<rparr> else s)
      else if key = CHR ''C'' then s\<lparr>enteredWeight := []\<rparr>
      else if key = CHR ''E'' then
        (if length (enteredWeight s) > 0 then
           (let knownWeight = toFloat (enteredWeight s);
                cf = fdiv rawValue knownWeight
            in s\<lparr>calibration_factor := cf,
                 eeprom_store := EEPROMWriteFloat (eeprom_store s) EEPROM_CAL_FACTOR_ADDR cf,
                 isCalibrating := False,
                 enteredWeight := []\<rparr>)
         else s)
      else s)"

definition handleCalibration :: "state \<Rightarrow> (int \<times> int) option \<Rightarrow> float \<Rightarrow> state" where
  "handleCalibration s p rawValue =
     (case p of
        None \<Rightarrow> s
      | Some (x, y) \<Rightarrow>
         (let key = getKeypadInput x y
          in if key \<noteq> CHR 0x00 then keypress s key rawValue else s))"

subsection \<open>The main loop\<close>

definition loop :: "state \<Rightarrow> float \<Rightarrow> (int \<times> int) option \<Rightarrow> float \<Rightarrow> state" where
  "loop s w p rawValue =
     (if isCalibrating s then handleCalibration s p rawValue
      else
        (let s1 = sense s w
         in case p of
              None \<Rightarrow> s1
            | Some (x, y) \<Rightarrow>
               (case button_action x y of
                  Tare \<Rightarrow> tare_action s1
                | Store \<Rightarrow> store_action s1
                | Reset \<Rightarrow> reset_action s1
                | Calibrate \<Rightarrow> s1\<lparr>isCalibrating := True\<rparr>
                | NoAction \<Rightarrow> s1)))"

text \<open>A run of the sketch: one tick per input triple.\<close>

fun run :: "state \<Rightarrow> (float \<times> (int \<times> int) option \<times> float) list \<Rightarrow> state" where
  "run s [] = s"
| "run s ((w, p, rawValue) # ts) = run (loop s w p rawValue) ts"

text \<open>Ticks in which nobody touches the screen: only the samples matter.\<close>

definition samples :: "float list \<Rightarrow> (float \<times> (int \<times> int) option \<times> float) list" where
  "samples ws = map (\<lambda>w. (w, None, 0)) ws"

section \<open>Notions of the specification\<close>

subsection \<open>Hit rectangles\<close>

text \<open>
  A rectangle is given as \<open>drawUI\<close> and \<open>drawKeypad\<close> draw it: left edge, top edge,
  width, height. Its boundary is the closed rectangle without the open interior.
\<close>

type_synonym rect = "int \<times> int \<times> int \<times> int"

definition interior :: "rect \<Rightarrow> int \<Rightarrow> int \<Rightarrow> bool" where
  "interior r x y =
     (case r of (rx, ry, w, h) \<Rightarrow> rx < x \<and> x < rx + w \<and> ry < y \<and> y < ry + h)"

definition on_boundary :: "rect \<Rightarrow> int \<Rightarrow> int \<Rightarrow> bool" where
  "on_boundary r x y =
     (case r of (rx, ry, w, h) \<Rightarrow>
        rx \<le> x \<and> x \<le> rx + w \<and> ry \<le> y \<and> y \<le> ry + h
        \<and> (x = rx \<or> x = rx + w \<or> y = ry \<or> y = ry + h))"

text \<open>The four buttons drawn by \<open>drawUI\<close>.\<close>

definition button_rects :: "(action \<times> rect) list" where
  "button_rects =
     [(Tare, (TARE_BUTTON_X, TARE_BUTTON_Y, BUTTON_W, BUTTON_H)),
      (Store, (STORE_BUTTON_X, STORE_BUTTON_Y, BUTTON_W, BUTTON_H)),
      (Reset, (RESET_BUTTON_X, RESET_BUTTON_Y, BUTTON_W, BUTTON_H)),
      (Calibrate, (CALIBRATE_BUTTON_X, CALIBRATE_BUTTON_Y, BUTTON_W, BUTTON_H))]"

text \<open>The twelve keys and the Clear bar drawn by \<open>drawKeypad\<close>.\<close>

definition keypad_rects :: "(char \<times> rect) list" where
  "keypad_rects =
     concat (map (\<lambda>row. map (\<lambda>col.
        (keys ! row ! col,
         (startX + int col * (keyW + spacing), startY + int row * (keyH + spacing), keyW, keyH)))
        [0 ..< 3]) [0 ..< 4])
     @ [(CHR ''C'', (startX, startY + 4 * (keyH + spacing), keyW * 3 + spacing * 2, keyH))]"

subsection \<open>Entry buffer\<close>

text \<open>Only digits and decimal points, and at most one decimal point.\<close>

definition buffer_ok :: "string \<Rightarrow> bool" where
  "buffer_ok buf =
     (list_all (\<lambda>c. is_digit c \<or> c = CHR ''.'') buf \<and> count_list buf (CHR ''.'') \<le> 1)"

subsection \<open>Load cycles\<close>

text \<open>
  The detector sees the samples after the noise gate. Such a sample is positive
  (\<open>> 0\<close>), zero (\<open>== 0\<close>) or neither (negative, or NaN).
\<close>

definition positive :: "float \<Rightarrow> bool" where
  "positive w = fl_gt w 0"

definition is_zero :: "float \<Rightarrow> bool" where
  "is_zero w = fl_eq w 0"

definition counted :: "float \<Rightarrow> bool" where
  "counted w = (positive w \<or> is_zero w)"

text \<open>
  The number of maximal runs of positive samples that are followed by a zero sample.
  A maximal run ends at a positive sample whose successor is not positive, and it is
  followed by a zero sample when that successor is zero: the runs in question are
  the places where a positive sample stands directly before a zero sample.
\<close>

fun completed_runs :: "float list \<Rightarrow> nat" where
  "completed_runs (a # b # ws) =
     (if positive a \<and> is_zero b then 1 else 0) + completed_runs (b # ws)"
| "completed_runs ws = 0"

text \<open>
  The weaker reading of "followed by": the number of maximal runs of positive samples
  after which a zero sample occurs anywhere later in the sequence.
\<close>

fun runs_before_zero :: "float list \<Rightarrow> nat" where
  "runs_before_zero (a # b # ws) =
     (if positive a \<and> \<not> positive b \<and> list_ex is_zero (b # ws) then 1 else 0)
       + runs_before_zero (b # ws)"
| "runs_before_zero ws = 0"

text \<open>
  Load cycles. The sample sequence is split at its zero samples; all pieces but the
  last one were ended by a zero sample. Such a piece is a completed load cycle when it
  contains a positive sample, and the weight of the cycle is the last positive sample
  in it.
\<close>

fun chunks :: "float list \<Rightarrow> float list list" where
  "chunks [] = [[]]"
| "chunks (w # ws) =
     (if is_zero w then [] # chunks ws
      else (case chunks ws of [] \<Rightarrow> [[w]] | c # cs \<Rightarrow> (w # c) # cs))"

definition cycle_weights :: "float list \<Rightarrow> float list" where
  "cycle_weights ws =
     map last (filter (\<lambda>c. c \<noteq> []) (map (filter positive) (butlast (chunks ws))))"

text \<open>
  For the proofs: the weights the detector credits on a sequence of gated samples,
  given whether a load is pending (\<open>ld\<close>) and the last weight seen (\<open>lw\<close>).
\<close>

fun track :: "bool \<Rightarrow> float \<Rightarrow> float list \<Rightarrow> float list" where
  "track ld lw [] = []"
| "track ld lw (g # gs) =
     (if positive g then track True g gs
      else if is_zero g \<and> ld then lw # track False 0 gs
      else track ld lw gs)"

subsection \<open>Sample states\<close>

text \<open>An erased EEPROM reads \<open>0xFF\<close> in every cell.\<close>

definition fresh_eeprom :: eeprom where
  "fresh_eeprom = (\<lambda>address. 0xFF)"

text \<open>The sketch at rest in normal operation, counters at zero.\<close>

definition idle_state :: state where
  "idle_state =
     \<lparr> calibration_factor = default_calibration_factor,
       last_weight = 0,
       current_weight = 0,
       total_weight = 0,
       load_count = 0,
       load_detected = False,
       isCalibrating = False,
       enteredWeight = [],
       eeprom_store = fresh_eeprom \<rparr>"

text \<open>At rest with a total weight of 10.0, and with a total weight of 16777216.0.\<close>

definition some_total_state :: state where
  "some_total_state = idle_state\<lparr>total_weight := 0x41200000\<rparr>"

definition full_total_state :: state where
  "full_total_state = idle_state\<lparr>total_weight := 0x4B800000\<rparr>"

text \<open>Calibration mode with the entry \<open>0\<close> typed in.\<close>

definition zero_entry_state :: state where
  "zero_entry_state = idle_state\<lparr>isCalibrating := True, enteredWeight := ''0''\<rparr>"

text \<open>An EEPROM whose calibration cells 6..9 hold \<open>00 00 80 7F\<close>, the pattern of +infinity.\<close>

definition inf_eeprom :: eeprom where
  "inf_eeprom = fresh_eeprom(6 := 0x00, 7 := 0x00, 8 := 0x80, 9 := 0x7F)"

section \<open>The float model\<close>

text \<open>
  The comparisons of the model are the comparisons of the values: the order of the
  signed magnitude patterns is the order of the values they encode, negation flips
  the sign only, and the noise gate maps exactly the samples of absolute value below
  0.5 (\<open>2^148\<close> units) to zero.
\<close>

text \<open>For evaluating comparisons on given bit patterns.\<close>

lemmas fl_cmp_defs = fl_gt_def fl_lt_def fl_eq_def isnan_def isinf_def fl_key_def fl_mag_def
  fl_sign_def fl_abs_def fl_neg_def fl_half_def noise_gate_def

lemma fl_sign_bit: "fl_sign f \<longleftrightarrow> bit f 31"
proof -
  have lt: "unat f < 4294967296" using unsigned_less [of f, where 'a = nat] by simp
  have "bit f 31 \<longleftrightarrow> bit (unat f) 31"
    by (simp add: bit_unsigned_iff)
  also have "\<dots> \<longleftrightarrow> odd (unat f div 2147483648)"
    by (simp add: bit_iff_odd)
  also have "\<dots> \<longleftrightarrow> 2147483648 \<le> unat f"
  proof (cases "2147483648 \<le> unat f")
    case True
    then have "unat f div 2147483648 = Suc ((unat f - 2147483648) div 2147483648)"
      by (simp add: le_div_geq)
    moreover have "(unat f - 2147483648) div 2147483648 = 0"
      using lt by simp
    ultimately show ?thesis using True by simp
  next
    case False
    then show ?thesis by simp
  qed
  finally show ?thesis by (simp add: fl_sign_def)
qed

lemma fl_neg_flip: "fl_neg f = (if bit f 31 then f - 2 ^ 31 else f + 2 ^ 31)"
proof -
  have "fl_neg f = flip_bit 31 f"
    by (simp add: fl_neg_def flip_bit_eq_xor push_bit_eq_mult)
  then show ?thesis
    by (simp add: flip_bit_eq_if set_bit_eq unset_bit_eq)
qed

lemma unat_lt32: "unat (f :: float) < 4294967296"
  using unsigned_less [of f, where 'a = nat] by simp

lemma unat_top: "unat (2 ^ 31 :: float) = 2147483648"
  by simp

lemma fl_neg_unat:
  "unat (fl_neg f) = (if fl_sign f then unat f - 2147483648 else unat f + 2147483648)"
proof (cases "fl_sign f")
  case True
  then have b: "bit f 31" by (simp add: fl_sign_bit)
  have le: "(2 ^ 31 :: float) \<le> f"
    using True unat_top by (simp only: fl_sign_def word_le_nat_alt) simp
  have "unat (f - 2 ^ 31) = unat f - unat (2 ^ 31 :: float)"
    by (rule unat_sub [OF le])
  then show ?thesis
    using True b unat_top by (simp only: fl_neg_flip if_True)
next
  case False
  then have b: "\<not> bit f 31" by (simp add: fl_sign_bit)
  have "unat f < 2147483648"
    using False by (simp add: fl_sign_def)
  then have "unat f + unat (2 ^ 31 :: float) < 2 ^ LENGTH(32)"
    unfolding unat_top by simp
  then have "unat (f + 2 ^ 31) = unat f + unat (2 ^ 31 :: float)"
    by (simp only: unat_add_lem)
  then show ?thesis
    using False b unat_top by (simp only: fl_neg_flip if_False)
qed

lemma fl_neg_sign: "fl_sign (fl_neg f) \<longleftrightarrow> \<not> fl_sign f"
proof (cases "fl_sign f")
  case True
  then have "unat (fl_neg f) = unat f - 2147483648" by (simp only: fl_neg_unat if_True)
  then have "unat (fl_neg f) < 2147483648" using unat_lt32 [of f] by linarith
  then show ?thesis using True by (simp add: fl_sign_def [of "fl_neg f"])
next
  case False
  then have "unat (fl_neg f) = unat f + 2147483648" by (simp only: fl_neg_unat if_False)
  then have "2147483648 \<le> unat (fl_neg f)" by linarith
  then show ?thesis using False by (simp add: fl_sign_def [of "fl_neg f"])
qed

lemma fl_neg_mag: "fl_mag (fl_neg f) = fl_mag f"
proof (cases "fl_sign f")
  case True
  then have u: "unat (fl_neg f) = unat f - 2147483648" by (simp only: fl_neg_unat if_True)
  have "2147483648 \<le> unat f" using True by (simp add: fl_sign_def)
  then have "unat f mod 2147483648 = (unat f - 2147483648) mod 2147483648"
    by (rule le_mod_geq)
  then show ?thesis by (simp add: fl_mag_def u)
next
  case False
  then have u: "unat (fl_neg f) = unat f + 2147483648" by (simp only: fl_neg_unat if_False)
  show ?thesis by (simp add: fl_mag_def u)
qed

lemma fl_neg_isnan: "isnan (fl_neg f) \<longleftrightarrow> isnan f"
  by (simp add: isnan_def fl_neg_mag)

lemma fl_neg_key: "fl_key (fl_neg f) = (if fl_mag f = 0 then 0 else - fl_key f)"
  by (simp add: fl_key_def fl_neg_mag fl_neg_sign)

lemma fl_units_mag: "fl_units f = units_of_mag (fl_mag f)"
  by (simp add: fl_units_def units_of_mag_def fl_exp_def fl_frac_def)

lemma units_of_mag_step: "units_of_mag m < units_of_mag (Suc m)"
proof (cases "Suc (m mod 2 ^ 23) = 2 ^ 23")
  case True
  have md: "Suc m mod 2 ^ 23 = 0"
    by (subst mod_Suc) (simp only: True refl if_True)
  have dv: "Suc m div 2 ^ 23 = Suc (m div 2 ^ 23)"
    using True md by (simp add: div_Suc)
  have f: "m mod 2 ^ 23 = 2 ^ 23 - 1" using True by simp
  show ?thesis
  proof (cases "m div 2 ^ 23 = 0")
    case True
    then show ?thesis using md dv f by (simp add: units_of_mag_def)
  next
    case False
    then obtain e where e: "m div 2 ^ 23 = Suc e" by (cases "m div 2 ^ 23") auto
    show ?thesis
      using md dv f e by (simp add: units_of_mag_def)
  qed
next
  case False
  have lt: "m mod 2 ^ 23 < 2 ^ 23" by simp
  then have md: "Suc m mod 2 ^ 23 = Suc (m mod 2 ^ 23)"
    using False by (simp add: mod_Suc)
  have dv: "Suc m div 2 ^ 23 = m div 2 ^ 23"
    using False md by (simp add: div_Suc)
  show ?thesis
    using md dv by (simp add: units_of_mag_def)
qed

lemma units_of_mag_mono: "m < n \<Longrightarrow> units_of_mag m < units_of_mag n"
  by (rule lift_Suc_mono_less [of units_of_mag]) (rule units_of_mag_step)

lemma units_of_mag_inj: "units_of_mag m = units_of_mag n \<longleftrightarrow> m = n"
  by (metis units_of_mag_mono nat_neq_iff)

lemma units_of_mag_less: "units_of_mag m < units_of_mag n \<longleftrightarrow> m < n"
  by (metis units_of_mag_mono nat_neq_iff order_less_asym)

lemma units_of_mag_0: "units_of_mag 0 = 0"
  by (simp add: units_of_mag_def)

lemma fl_key_value_less: "fl_key a < fl_key b \<longleftrightarrow> fl_value a < fl_value b"
proof -
  have z: "units_of_mag m = 0 \<longleftrightarrow> m = 0" for m
    using units_of_mag_inj [of m 0] by (simp add: units_of_mag_0)
  show ?thesis
    unfolding fl_key_def fl_value_def fl_units_mag
    using units_of_mag_less [of "fl_mag a" "fl_mag b"] units_of_mag_less [of "fl_mag b" "fl_mag a"]
      z [of "fl_mag a"] z [of "fl_mag b"]
    by (auto simp: not_less)
qed

lemma fl_key_value_eq: "fl_key a = fl_key b \<longleftrightarrow> fl_value a = fl_value b"
proof -
  have z: "units_of_mag m = 0 \<longleftrightarrow> m = 0" for m
    using units_of_mag_inj [of m 0] by (simp add: units_of_mag_0)
  show ?thesis
  proof (cases "fl_sign a = fl_sign b")
    case True
    then show ?thesis
      unfolding fl_key_def fl_value_def fl_units_mag
      using units_of_mag_inj [of "fl_mag a" "fl_mag b"] by auto
  next
    case False
    have "int (fl_mag a) = - int (fl_mag b) \<longleftrightarrow> fl_mag a = 0 \<and> fl_mag b = 0"
      by auto
    moreover have "- int (fl_mag a) = int (fl_mag b) \<longleftrightarrow> fl_mag a = 0 \<and> fl_mag b = 0"
      by auto
    moreover have "int (units_of_mag (fl_mag a)) = - int (units_of_mag (fl_mag b))
        \<longleftrightarrow> fl_mag a = 0 \<and> fl_mag b = 0"
      using z [of "fl_mag a"] z [of "fl_mag b"] by auto
    moreover have "- int (units_of_mag (fl_mag a)) = int (units_of_mag (fl_mag b))
        \<longleftrightarrow> fl_mag a = 0 \<and> fl_mag b = 0"
      using z [of "fl_mag a"] z [of "fl_mag b"] by auto
    ultimately show ?thesis
      unfolding fl_key_def fl_value_def fl_units_mag using False by auto
  qed
qed

lemma fl_value_neg: "fl_value (fl_neg f) = - fl_value f"
  by (simp add: fl_value_def fl_units_mag fl_neg_mag fl_neg_sign)

lemma fl_value_consts: "fl_value 0 = 0" "fl_value fl_half = 2 ^ 148"
  by (simp_all add: fl_value_def fl_units_def fl_exp_def fl_frac_def fl_mag_def fl_sign_def
      fl_half_def)

lemma isnan_consts: "\<not> isnan 0" "\<not> isnan fl_half"
  by (simp_all add: isnan_def fl_mag_def fl_half_def)

lemma fl_lt_value: "fl_lt a b \<longleftrightarrow> \<not> isnan a \<and> \<not> isnan b \<and> fl_value a < fl_value b"
  by (simp add: fl_lt_def fl_key_value_less)

lemma fl_eq_value: "fl_eq a b \<longleftrightarrow> \<not> isnan a \<and> \<not> isnan b \<and> fl_value a = fl_value b"
  by (simp add: fl_eq_def fl_key_value_eq)

lemma positive_value: "positive w \<longleftrightarrow> \<not> isnan w \<and> 0 < fl_value w"
  by (simp add: positive_def fl_gt_def fl_lt_value isnan_consts fl_value_consts)

lemma is_zero_value: "is_zero w \<longleftrightarrow> \<not> isnan w \<and> fl_value w = 0"
  by (simp add: is_zero_def fl_eq_value isnan_consts fl_value_consts)

lemma noise_gate_value:
  "noise_gate w = (if \<not> isnan w \<and> \<bar>fl_value w\<bar> < 2 ^ 148 then 0 else w)"
proof (cases "fl_gt w 0")
  case True
  then have p: "\<not> isnan w" "0 < fl_value w"
    by (simp_all add: fl_gt_def fl_lt_value fl_value_consts)
  show ?thesis
    using True p by (simp add: noise_gate_def fl_abs_def fl_lt_value isnan_consts fl_value_consts)
next
  case False
  then have n: "isnan w \<or> fl_value w \<le> 0"
    by (auto simp: fl_gt_def fl_lt_value fl_value_consts isnan_consts)
  show ?thesis
    using False n
    by (auto simp: noise_gate_def fl_abs_def fl_lt_value isnan_consts fl_value_consts
        fl_neg_isnan fl_value_neg)
qed

text \<open>Rounding in the arithmetic: 1/3, 0.1 + 0.2 and the tie 16777216 + 1.\<close>

lemma fdiv_one_third: "fdiv 0x3F800000 0x40400000 = 0x3EAAAAAB"
proof -
  have u: "fl_units 0x3F800000 = 2 ^ 149" "fl_units 0x40400000 = 3 * 2 ^ 149"
    by (simp_all add: fl_units_def fl_exp_def fl_frac_def fl_mag_def)
  have q: "(2 ^ 149 * 2 ^ 149) div (3 * 2 ^ 149) = (2 ^ 149 div 3 :: nat)"
    by simp
  have nb: "nbits (2 ^ 149 div 3) = 148"
    by (simp add: nbits.simps)
  have r: "round_units (2 ^ 149 * 2 ^ 149) (3 * 2 ^ 149) = 0x3EAAAAAB"
    unfolding round_units_def q nb by (simp add: rne_def Let_def)
  show ?thesis
    unfolding fdiv_def u r
    by (simp add: Let_def isnan_def isinf_def fl_mag_def fl_sign_def mk_float_def)
qed

lemma fadd_tenth_fifth: "fadd 0x3DCCCCCD 0x3E4CCCCD = 0x3E99999A"
proof -
  have u: "fl_units 0x3DCCCCCD = 13421773 * 2 ^ 122" "fl_units 0x3E4CCCCD = 13421773 * 2 ^ 123"
    by (simp_all add: fl_units_def fl_exp_def fl_frac_def fl_mag_def)
  have q: "(40265319 * 2 ^ 122 :: nat) div 1 = 40265319 * 2 ^ 122" by simp
  have nb: "nbits (40265319 * 2 ^ 122) = 148" by (simp add: nbits.simps)
  have r: "round_units (40265319 * 2 ^ 122) 1 = 0x3E99999A"
    unfolding round_units_def q nb by (simp add: rne_def Let_def)
  have sg: "\<not> fl_sign 0x3DCCCCCD" "\<not> fl_sign 0x3E4CCCCD" "\<not> isnan 0x3DCCCCCD"
    "\<not> isnan 0x3E4CCCCD" "\<not> isinf 0x3DCCCCCD" "\<not> isinf 0x3E4CCCCD"
    by (simp_all add: fl_sign_def isnan_def isinf_def fl_mag_def)
  show ?thesis
    unfolding fadd_def u Let_def using r sg
    by (simp add: mk_float_def)
qed

lemma fadd_tie_to_even: "fadd 0x4B800000 0x3F800000 = 0x4B800000"
proof -
  have u: "fl_units 0x4B800000 = 2 ^ 173" "fl_units 0x3F800000 = 2 ^ 149"
    by (simp_all add: fl_units_def fl_exp_def fl_frac_def fl_mag_def)
  have q: "(16777217 * 2 ^ 149 :: nat) div 1 = 16777217 * 2 ^ 149" by simp
  have nb: "nbits (16777217 * 2 ^ 149) = 174" by (simp add: nbits.simps)
  have r: "round_units (16777217 * 2 ^ 149) 1 = 0x4B800000"
    unfolding round_units_def q nb by (simp add: rne_def Let_def)
  have sg: "\<not> fl_sign 0x4B800000" "\<not> fl_sign 0x3F800000" "\<not> isnan 0x4B800000"
    "\<not> isnan 0x3F800000" "\<not> isinf 0x4B800000" "\<not> isinf 0x3F800000"
    by (simp_all add: fl_sign_def isnan_def isinf_def fl_mag_def)
  show ?thesis
    unfolding fadd_def u Let_def using r sg
    by (simp add: mk_float_def)
qed

subsection \<open>Rounding of the float addition\<close>

lemma nbits_0: "nbits 0 = 0"
  by (simp add: nbits.simps)

lemma nbits_pos: "0 < n \<Longrightarrow> nbits n = Suc (nbits (n div 2))"
  by (subst nbits.simps) simp

lemma nbits_less: "n < 2 ^ nbits n"
proof (induction n rule: nbits.induct)
  case (1 n)
  show ?case
  proof (cases "n = 0")
    case True
    then show ?thesis by (simp add: nbits_0)
  next
    case False
    with 1 have "n div 2 < 2 ^ nbits (n div 2)" by simp
    then have "n < 2 * 2 ^ nbits (n div 2)" by linarith
    with False show ?thesis by (simp add: nbits_pos)
  qed
qed

lemma nbits_ge: "0 < n \<Longrightarrow> 2 ^ (nbits n - 1) \<le> n"
proof (induction n rule: nbits.induct)
  case (1 n)
  then have pos: "0 < n" by simp
  show ?case
  proof (cases "n div 2 = 0")
    case True
    with pos show ?thesis by (simp add: nbits_pos nbits_0)
  next
    case False
    then have h: "0 < n div 2" by simp
    with 1 pos have ih: "2 ^ (nbits (n div 2) - 1) \<le> n div 2" by simp
    have "nbits (n div 2) = Suc (nbits (n div 2) - 1)"
      using h by (simp add: nbits_pos)
    then have "(2::nat) ^ nbits (n div 2) = 2 * 2 ^ (nbits (n div 2) - 1)"
      by (metis power_Suc)
    with ih have "2 ^ nbits (n div 2) \<le> n" by linarith
    with pos show ?thesis by (simp add: nbits_pos)
  qed
qed

lemma units_of_mag_pattern:
  assumes "r \<le> 16777216" and "k = 0 \<or> 8388608 \<le> r"
  shows "units_of_mag (k * 8388608 + r) = r * 2 ^ k"
proof -
  consider (sub) "r < 8388608" | (norm) "8388608 \<le> r" "r < 16777216" | (top) "r = 16777216"
    using assms(1) by linarith
  then show ?thesis
  proof cases
    case sub
    with assms(2) have "k = 0" by simp
    with sub show ?thesis by (simp add: units_of_mag_def)
  next
    case norm
    define f where "f = r - 8388608"
    have r: "r = 8388608 + f" and f: "f < 8388608" using norm by (simp_all add: f_def)
    have p: "k * 8388608 + r = f + Suc k * 8388608" by (simp add: r)
    have d: "(k * 8388608 + r) div 8388608 = Suc k"
      unfolding p using f by simp
    have m: "(k * 8388608 + r) mod 8388608 = f"
      unfolding p mod_mult_self1 using f by simp
    show ?thesis
      using d m by (simp add: units_of_mag_def r)
  next
    case top
    have p: "k * 8388608 + r = 0 + Suc (Suc k) * 8388608" by (simp add: top)
    have d: "(k * 8388608 + r) div 8388608 = Suc (Suc k)"
      unfolding p by simp
    have m: "(k * 8388608 + r) mod 8388608 = 0"
      unfolding p mod_mult_self1 by simp
    show ?thesis
      using d m by (simp add: units_of_mag_def top)
  qed
qed

lemma rne_cases: "rne n d = n div d \<or> rne n d = n div d + 1"
  by (simp add: rne_def Let_def)

lemma rne_err:
  assumes "0 < d"
  shows "\<bar>int (rne n d * d) - int n\<bar> \<le> int (n mod d)
         \<and> \<bar>int (rne n d * d) - int n\<bar> \<le> int (d - n mod d)"
proof -
  define q where "q = n div d"
  define r where "r = n mod d"
  have n: "n = q * d + r" by (simp add: q_def r_def)
  have rd: "r < d" using assms by (simp add: r_def)
  have qd: "int ((q + 1) * d) = int (q * d) + int d" by (simp add: algebra_simps)
  have nn: "int n = int (q * d) + int r" using n by simp
  have "rne n d =
      (if 2 * r < d then q else if d < 2 * r then q + 1 else if even q then q else q + 1)"
    by (simp add: rne_def Let_def q_def r_def)
  then have "(rne n d = q \<and> 2 * r \<le> d) \<or> (rne n d = q + 1 \<and> d \<le> 2 * r)"
    by auto
  then consider (down) "rne n d = q" "2 * r \<le> d" | (up) "rne n d = q + 1" "d \<le> 2 * r"
    by blast
  then show ?thesis
  proof cases
    case down
    then show ?thesis
      unfolding r_def [symmetric] using nn rd by simp
  next
    case up
    then show ?thesis
      unfolding r_def [symmetric] using nn qd rd by simp
  qed
qed

lemma units_of_mag_le: "m \<le> n \<Longrightarrow> units_of_mag m \<le> units_of_mag n"
  using units_of_mag_mono [of m n] by (cases "m = n") auto

text \<open>The significand of a positive count of units and its bounds.\<close>

lemma significand_bounds:
  assumes "0 < n"
  defines "k \<equiv> nbits n - 24"
  shows "n div 2 ^ k < 16777216" and "k = 0 \<or> 8388608 \<le> n div 2 ^ k"
proof -
  have up: "n < 2 ^ nbits n" by (rule nbits_less)
  have "nbits n \<le> 24 + k" by (simp add: k_def)
  then have "(2::nat) ^ nbits n \<le> 2 ^ (24 + k)"
    by (intro power_increasing) simp_all
  with up have "n < 2 ^ 24 * 2 ^ k" by (simp add: power_add)
  then have "n div 2 ^ k < 2 ^ 24"
    by (simp add: less_mult_imp_div_less)
  then show "n div 2 ^ k < 16777216" by simp
  show "k = 0 \<or> 8388608 \<le> n div 2 ^ k"
  proof (cases "k = 0")
    case True
    then show ?thesis by simp
  next
    case False
    then have nb: "nbits n - 1 = 23 + k" by (simp add: k_def)
    have "(2::nat) ^ (23 + k) \<le> n"
      using nbits_ge [OF assms(1)] by (simp only: nb)
    then have "2 ^ 23 * 2 ^ k \<le> n" by (simp add: power_add)
    then have "(2 ^ 23 * 2 ^ k) div 2 ^ k \<le> n div 2 ^ k"
      by (rule div_le_mono)
    then have "(2::nat) ^ 23 \<le> n div 2 ^ k" by simp
    then show ?thesis by simp
  qed
qed

lemma pattern_nearest:
  assumes "0 < n"
  defines "k \<equiv> nbits n - 24"
  defines "M \<equiv> k * 8388608 + rne n (2 ^ k)"
  shows "units_of_mag M = rne n (2 ^ k) * 2 ^ k"
    and "\<bar>int (units_of_mag M) - int n\<bar> \<le> \<bar>int (units_of_mag m) - int n\<bar>"
    and "\<bar>int (units_of_mag M) - int n\<bar> \<le> int (n mod 2 ^ k)"
proof -
  define g :: nat where "g = 2 ^ k"
  define q where "q = n div g"
  define rem where "rem = n mod g"
  define r where "r = rne n g"
  have g: "0 < g" by (simp add: g_def)
  have qb: "q < 16777216" "k = 0 \<or> 8388608 \<le> q"
    using significand_bounds [OF assms(1)] by (simp_all add: q_def g_def k_def)
  have rc: "r = q \<or> r = q + 1"
    using rne_cases [of n g] by (simp add: r_def q_def)
  have rb: "r \<le> 16777216" "k = 0 \<or> 8388608 \<le> r"
    using rc qb by auto
  have uM: "units_of_mag M = r * g"
    unfolding M_def g_def [symmetric] r_def [symmetric]
    using units_of_mag_pattern [OF rb] by (simp add: g_def)
  then show "units_of_mag M = rne n (2 ^ k) * 2 ^ k"
    by (simp add: r_def g_def)
  have err: "\<bar>int (r * g) - int n\<bar> \<le> int rem" "\<bar>int (r * g) - int n\<bar> \<le> int (g - rem)"
    using rne_err [OF g, of n] by (simp_all add: r_def rem_def)
  show "\<bar>int (units_of_mag M) - int n\<bar> \<le> int (n mod 2 ^ k)"
    using err(1) uM by (simp add: rem_def g_def)
  have n: "n = q * g + rem" by (simp add: q_def rem_def)
  have remlt: "rem < g" using g by (simp add: rem_def)
  define mq where "mq = k * 8388608 + q"
  have uq: "units_of_mag mq = q * g"
    unfolding mq_def using units_of_mag_pattern [of q k] qb by (simp add: g_def)
  have uq1: "units_of_mag (Suc mq) = (q + 1) * g"
  proof -
    have "q + 1 \<le> 16777216" "k = 0 \<or> 8388608 \<le> q + 1" using qb by auto
    from units_of_mag_pattern [OF this] show ?thesis
      by (simp add: mq_def g_def)
  qed
  show "\<bar>int (units_of_mag M) - int n\<bar> \<le> \<bar>int (units_of_mag m) - int n\<bar>"
  proof (cases "m \<le> mq")
    case True
    then have "units_of_mag m \<le> q * g"
      using units_of_mag_le [of m mq] uq by simp
    then have "int rem \<le> \<bar>int (units_of_mag m) - int n\<bar>"
      using n by linarith
    with err(1) uM show ?thesis by simp
  next
    case False
    then have "Suc mq \<le> m" by simp
    then have "(q + 1) * g \<le> units_of_mag m"
      using units_of_mag_le [of "Suc mq" m] uq1 by simp
    then have "q * g + g \<le> units_of_mag m" by (simp add: algebra_simps)
    then have "int (g - rem) \<le> \<bar>int (units_of_mag m) - int n\<bar>"
      using n remlt by linarith
    with err(2) uM show ?thesis by simp
  qed
qed

lemma mk_float_unat:
  assumes "m < 2147483648"
  shows "unat (mk_float sg m) = (if sg then 2147483648 else 0) + m"
proof -
  have "(if sg then 2147483648 else 0) + m < 2 ^ LENGTH(32)"
    using assms by simp
  moreover have "word_of_nat ((if sg then 2147483648 else 0) + m) = mk_float sg m"
    by (simp add: mk_float_def)
  ultimately show ?thesis by (intro of_nat_inverse)
qed

lemma mk_float_mag: "m < 2147483648 \<Longrightarrow> fl_mag (mk_float sg m) = m"
  by (simp add: fl_mag_def mk_float_unat)

lemma mk_float_sign: "m < 2147483648 \<Longrightarrow> fl_sign (mk_float sg m) = sg"
  by (simp add: fl_sign_def mk_float_unat)

lemma mk_float_value:
  "m < 2147483648 \<Longrightarrow>
     fl_value (mk_float sg m) = (if sg then - int (units_of_mag m) else int (units_of_mag m))"
  by (simp add: fl_value_def fl_units_mag mk_float_mag mk_float_sign)

lemma fl_finite_not_special: "fl_finite f \<Longrightarrow> \<not> isnan f \<and> \<not> isinf f"
  by (simp add: fl_finite_def isnan_def isinf_def)

lemma fadd_finite:
  assumes "fl_finite a" "fl_finite b"
  shows "fadd a b =
     (if fl_value a + fl_value b = 0 then mk_float (fl_sign a \<and> fl_sign b) 0
      else mk_float (fl_value a + fl_value b < 0) (round_units (nat \<bar>fl_value a + fl_value b\<bar>) 1))"
  using fl_finite_not_special [OF assms(1)] fl_finite_not_special [OF assms(2)]
  by (simp add: fadd_def Let_def fl_value_def)

lemma round_units_1:
  "round_units n (Suc 0) =
     min ((nbits n - 24) * 8388608 + rne n (2 ^ (nbits n - 24))) 2139095040"
  by (simp add: round_units_def Let_def)

text \<open>
  Float addition is correctly rounded: when the operands and the result are finite,
  no binary32 value is nearer to the exact sum than the result.
\<close>

lemma fadd_nearest:
  assumes "fl_finite a" "fl_finite b" "fl_finite (fadd a b)"
  shows "\<bar>fl_value (fadd a b) - (fl_value a + fl_value b)\<bar>
           \<le> \<bar>fl_value x - (fl_value a + fl_value b)\<bar>"
proof (cases "fl_value a + fl_value b = 0")
  case True
  then have "fadd a b = mk_float (fl_sign a \<and> fl_sign b) 0"
    using fadd_finite [OF assms(1,2)] by simp
  then have "fl_value (fadd a b) = 0"
    by (simp add: mk_float_value units_of_mag_0)
  with True show ?thesis by simp
next
  case False
  define t where "t = fl_value a + fl_value b"
  define n where "n = nat \<bar>t\<bar>"
  define M where "M = (nbits n - 24) * 8388608 + rne n (2 ^ (nbits n - 24))"
  have npos: "0 < n" using False by (simp add: n_def t_def)
  have nt: "int n = \<bar>t\<bar>" by (simp add: n_def)
  have c: "fadd a b = mk_float (t < 0) (min M 2139095040)"
    using fadd_finite [OF assms(1,2)] False
    by (simp add: t_def [symmetric] n_def [symmetric] round_units_1 M_def)
  have lt: "min M 2139095040 < 2147483648" by simp
  have "fl_mag (fadd a b) = min M 2139095040"
    unfolding c by (rule mk_float_mag [OF lt])
  with assms(3) have Mlt: "M < 2139095040" by (simp add: fl_finite_def)
  then have c': "fadd a b = mk_float (t < 0) M" using c by simp
  have Mlt': "M < 2147483648" using Mlt by simp
  have vc: "fl_value (fadd a b) = (if t < 0 then - int (units_of_mag M) else int (units_of_mag M))"
    unfolding c' by (rule mk_float_value [OF Mlt'])
  have e1: "\<bar>int (units_of_mag M) - int n\<bar> \<le> \<bar>int (units_of_mag (fl_mag x)) - int n\<bar>"
    unfolding M_def by (rule pattern_nearest(2) [OF npos])
  have e2: "\<bar>int (units_of_mag M) - int n\<bar> \<le> int n"
    using pattern_nearest(2) [OF npos, of 0] by (simp add: M_def units_of_mag_0)
  have vx: "fl_value x = int (units_of_mag (fl_mag x)) \<or> fl_value x = - int (units_of_mag (fl_mag x))"
    by (simp add: fl_value_def fl_units_mag)
  have "\<bar>fl_value (fadd a b) - t\<bar> \<le> \<bar>fl_value x - t\<bar>"
    using vc e1 e2 nt vx by (cases "t < 0") (auto simp: abs_if split: if_splits)
  then show ?thesis by (simp add: t_def)
qed

text \<open>When the exact sum fits a binary32 value, float addition returns it.\<close>

lemma fadd_exact:
  assumes "fl_finite a" "fl_finite b" "representable (fl_value a + fl_value b)"
  shows "fl_finite (fadd a b) \<and> fl_value (fadd a b) = fl_value a + fl_value b"
proof (cases "fl_value a + fl_value b = 0")
  case True
  then have c: "fadd a b = mk_float (fl_sign a \<and> fl_sign b) 0"
    using fadd_finite [OF assms(1,2)] by simp
  show ?thesis
    unfolding c using True by (simp add: mk_float_value mk_float_mag fl_finite_def units_of_mag_0)
next
  case False
  define t where "t = fl_value a + fl_value b"
  define n where "n = nat \<bar>t\<bar>"
  define k where "k = nbits n - 24"
  define M where "M = k * 8388608 + rne n (2 ^ k)"
  have npos: "0 < n" using False by (simp add: n_def t_def)
  have nt: "int n = \<bar>t\<bar>" by (simp add: n_def)
  have rep: "nbits n \<le> 277" "n mod 2 ^ k = 0"
    using assms(3) by (simp_all add: representable_def Let_def t_def [symmetric]
        n_def [symmetric] k_def)
  have kb: "k \<le> 253" using rep(1) by (simp add: k_def)
  have rq: "rne n (2 ^ k) = n div 2 ^ k"
    using rep(2) by (simp add: rne_def Let_def)
  have "n div 2 ^ k < 16777216"
    using significand_bounds(1) [OF npos] by (simp add: k_def)
  then have "M < 253 * 8388608 + 16777216"
    using kb unfolding M_def rq by (intro add_le_less_mono mult_le_mono1) simp_all
  then have Mlt: "M < 2139095040" by simp
  have c: "fadd a b = mk_float (t < 0) M"
    using fadd_finite [OF assms(1,2)] False Mlt
    by (simp add: t_def [symmetric] n_def [symmetric] round_units_1 M_def k_def)
  have Mlt': "M < 2147483648" using Mlt by simp
  have "\<bar>int (units_of_mag M) - int n\<bar> \<le> int (n mod 2 ^ k)"
    unfolding M_def k_def by (rule pattern_nearest(3) [OF npos])
  then have u: "int (units_of_mag M) = int n" using rep(2) by simp
  have v: "fl_value (fadd a b) = t"
    unfolding c mk_float_value [OF Mlt'] using u nt by (simp add: abs_if split: if_splits)
  have f: "fl_finite (fadd a b)"
    unfolding c fl_finite_def mk_float_mag [OF Mlt'] using Mlt by simp
  from v f show ?thesis by (simp add: t_def)
qed

lemma foldl_fadd_exact:
  "fl_finite t \<Longrightarrow> list_all fl_finite vs \<Longrightarrow>
   sums_representable (fl_value t) (map fl_value vs) \<Longrightarrow>
     fl_finite (foldl fadd t vs)
     \<and> fl_value (foldl fadd t vs) = fl_value t + sum_list (map fl_value vs)"
proof (induction vs arbitrary: t)
  case Nil
  then show ?case by simp
next
  case (Cons v vs)
  have e: "fl_finite (fadd t v) \<and> fl_value (fadd t v) = fl_value t + fl_value v"
    using Cons.prems by (intro fadd_exact) simp_all
  have "fl_finite (foldl fadd (fadd t v) vs)
     \<and> fl_value (foldl fadd (fadd t v) vs) = fl_value (fadd t v) + sum_list (map fl_value vs)"
    using Cons.prems e by (intro Cons.IH) simp_all
  with e show ?case by simp
qed

section \<open>Persistent store codec\<close>

lemma byte_mask16: "(0xFF :: int16) = mask 8"
  by (simp add: mask_eq_exp_minus_1)

lemma int_bytes_join:
  "push_bit 8 (ucast (ucast (signed_drop_bit 8 v AND 0xFF :: int16) :: byte) :: int16)
     OR (ucast (ucast (v AND 0xFF :: int16) :: byte) :: int16) = v"
  unfolding byte_mask16
proof (rule bit_word_eqI)
  fix n :: nat
  assume "n < LENGTH(16)"
  then show "bit (push_bit 8 (ucast (ucast (signed_drop_bit 8 v AND mask 8 :: int16) :: byte) :: int16)
     OR (ucast (ucast (v AND mask 8 :: int16) :: byte) :: int16)) n = bit v n"
    by (cases "n < 8") (auto simp: bit_simps)
qed

lemma low_byte_eq: "(ucast (v AND 0xFF :: int16) :: byte) = ucast v"
  unfolding byte_mask16 by (rule bit_word_eqI) (auto simp: bit_simps)

lemma high_byte_eq:
  "(ucast (signed_drop_bit 8 v AND 0xFF :: int16) :: byte) = ucast (drop_bit 8 v)"
  unfolding byte_mask16 by (rule bit_word_eqI) (auto simp: bit_simps)

lemma low_byte_unat: "unat (ucast (v AND 0xFF :: int16) :: byte) = unat v mod 256"
  unfolding low_byte_eq by (simp add: unsigned_ucast_eq take_bit_eq_mod)

lemma high_byte_unat:
  "unat (ucast (signed_drop_bit 8 v AND 0xFF :: int16) :: byte) = unat v div 256"
proof -
  have "unat v < 2 ^ 16" using unsigned_less [of v] by simp
  then have "unat v div 256 < 256" by simp
  then show ?thesis
    unfolding high_byte_eq
    by (simp add: unsigned_ucast_eq take_bit_eq_mod unat_drop_bit_eq drop_bit_eq_div unat_div)
qed

lemma EEPROM_update_apply: "EEPROM_update e a b = e(a := b)"
  by (auto simp: EEPROM_update_def)

lemma EEPROMWriteInt_cells:
  "EEPROMWriteInt e addr v =
     e(addr := ucast (v AND 0xFF), addr + 1 := ucast (signed_drop_bit 8 v AND 0xFF))"
  unfolding EEPROMWriteInt_def Let_def EEPROM_update_apply ..

lemma EEPROMInt_written:
  "EEPROMWriteInt e addr v addr = ucast (v AND 0xFF)"
  "EEPROMWriteInt e addr v (addr + 1) = ucast (signed_drop_bit 8 v AND 0xFF)"
  unfolding EEPROMWriteInt_cells by simp_all

lemma EEPROMInt_read_write: "EEPROMReadInt (EEPROMWriteInt e addr v) addr = v"
  unfolding EEPROMReadInt_def EEPROM_read_def Let_def EEPROMInt_written
  by (rule int_bytes_join)

text \<open>
  Claim C5. For every 16-bit value \<open>v\<close> and every address \<open>addr\<close>, \<open>EEPROMWriteInt\<close>
  leaves the low byte of \<open>v\<close> (\<open>v mod 256\<close>) at \<open>addr\<close> and the high byte (\<open>v div 256\<close>)
  at \<open>addr + 1\<close>, and \<open>EEPROMReadInt\<close> at \<open>addr\<close> returns \<open>v\<close> again, read as unsigned
  and read as signed. The value is a 16-bit pattern, so the statement covers the
  patterns at and above 32768, which the \<open>int\<close> of the sketch holds as negative numbers.
\<close>

theorem EEPROMInt_roundtrip:
  "unat (EEPROM_read (EEPROMWriteInt e addr v) addr) = unat v mod 256
   \<and> unat (EEPROM_read (EEPROMWriteInt e addr v) (addr + 1)) = unat v div 256
   \<and> EEPROMReadInt (EEPROMWriteInt e addr v) addr = v
   \<and> unat (EEPROMReadInt (EEPROMWriteInt e addr v) addr) = unat v
   \<and> sint (EEPROMReadInt (EEPROMWriteInt e addr v) addr) = sint v"
  unfolding EEPROM_read_def EEPROMInt_written EEPROMInt_read_write
  using low_byte_unat [of v] high_byte_unat [of v]
  by blast

text \<open>The patterns 32768 and 65535 on an erased EEPROM: as \<open>int\<close> they are -32768 and -1.\<close>

lemma EEPROMInt_high_values:
  "EEPROMReadInt (EEPROMWriteInt fresh_eeprom 0 0x8000) 0 = 0x8000"
  "unat (EEPROMReadInt (EEPROMWriteInt fresh_eeprom 0 0x8000) 0) = 32768"
  "sint (EEPROMReadInt (EEPROMWriteInt fresh_eeprom 0 0x8000) 0) = - 32768"
  "unat (EEPROMReadInt (EEPROMWriteInt fresh_eeprom 0 0xFFFF) 0) = 65535"
  "sint (EEPROMReadInt (EEPROMWriteInt fresh_eeprom 0 0xFFFF) 0) = - 1"
  by (simp_all add: EEPROMInt_read_write)

section \<open>Input dispatcher\<close>

lemma keypad_rects_eq:
  "keypad_rects =
    [(CHR ''1'', (240, 40, 60, 40)), (CHR ''2'', (310, 40, 60, 40)), (CHR ''3'', (380, 40, 60, 40)),
     (CHR ''4'', (240, 90, 60, 40)), (CHR ''5'', (310, 90, 60, 40)), (CHR ''6'', (380, 90, 60, 40)),
     (CHR ''7'', (240, 140, 60, 40)), (CHR ''8'', (310, 140, 60, 40)), (CHR ''9'', (380, 140, 60, 40)),
     (CHR ''.'', (240, 190, 60, 40)), (CHR ''0'', (310, 190, 60, 40)), (CHR ''E'', (380, 190, 60, 40)),
     (CHR ''C'', (240, 240, 200, 40))]"
  by (simp add: keypad_rects_def keys_def upt_rec)

text \<open>The two loops of \<open>getKeypadInput\<close>, unrolled.\<close>

lemma keypad_cols_0:
  "keypad_cols x y row 0 =
     (if 240 < x \<and> x < 300 \<and> 40 + int row * 50 < y \<and> y < 80 + int row * 50
      then Some (keys ! row ! 0)
      else if 310 < x \<and> x < 370 \<and> 40 + int row * 50 < y \<and> y < 80 + int row * 50
      then Some (keys ! row ! Suc 0)
      else if 380 < x \<and> x < 440 \<and> 40 + int row * 50 < y \<and> y < 80 + int row * 50
      then Some (keys ! row ! Suc (Suc 0))
      else None)"
  by (simp add: keypad_cols.simps [of x y row 0] keypad_cols.simps [of x y row "Suc 0"]
      keypad_cols.simps [of x y row "Suc (Suc 0)"]
      keypad_cols.simps [of x y row "Suc (Suc (Suc 0))"] Let_def)

lemma keypad_rows_0:
  "keypad_rows x y 0 =
     (case keypad_cols x y 0 0 of Some k \<Rightarrow> Some k | None \<Rightarrow>
      (case keypad_cols x y (Suc 0) 0 of Some k \<Rightarrow> Some k | None \<Rightarrow>
       (case keypad_cols x y (Suc (Suc 0)) 0 of Some k \<Rightarrow> Some k | None \<Rightarrow>
          keypad_cols x y (Suc (Suc (Suc 0))) 0)))"
  by (simp add: keypad_rows.simps [of x y 0] keypad_rows.simps [of x y "Suc 0"]
      keypad_rows.simps [of x y "Suc (Suc 0)"] keypad_rows.simps [of x y "Suc (Suc (Suc 0))"]
      keypad_rows.simps [of x y "Suc (Suc (Suc (Suc 0)))"]
      split: option.splits)

lemma getKeypadInput_eq:
  "getKeypadInput x y =
    (if 240 < x \<and> x < 300 \<and> 40 < y \<and> y < 80 then CHR ''1''
     else if 310 < x \<and> x < 370 \<and> 40 < y \<and> y < 80 then CHR ''2''
     else if 380 < x \<and> x < 440 \<and> 40 < y \<and> y < 80 then CHR ''3''
     else if 240 < x \<and> x < 300 \<and> 90 < y \<and> y < 130 then CHR ''4''
     else if 310 < x \<and> x < 370 \<and> 90 < y \<and> y < 130 then CHR ''5''
     else if 380 < x \<and> x < 440 \<and> 90 < y \<and> y < 130 then CHR ''6''
     else if 240 < x \<and> x < 300 \<and> 140 < y \<and> y < 180 then CHR ''7''
     else if 310 < x \<and> x < 370 \<and> 140 < y \<and> y < 180 then CHR ''8''
     else if 380 < x \<and> x < 440 \<and> 140 < y \<and> y < 180 then CHR ''9''
     else if 240 < x \<and> x < 300 \<and> 190 < y \<and> y < 230 then CHR ''.''
     else if 310 < x \<and> x < 370 \<and> 190 < y \<and> y < 230 then CHR ''0''
     else if 380 < x \<and> x < 440 \<and> 190 < y \<and> y < 230 then CHR ''E''
     else if 240 < x \<and> x < 440 \<and> 240 < y \<and> y < 280 then CHR ''C''
     else CHR 0x00)"
  by (simp add: getKeypadInput_def keypad_rows_0 keypad_cols_0 keys_def Let_def)

lemma buttons_strict:
  "\<forall>(a, r) \<in> set button_rects.
      (button_action x y = a \<longleftrightarrow> interior r x y)
      \<and> (on_boundary r x y \<longrightarrow> button_action x y = NoAction)"
  by (simp add: button_rects_def interior_def on_boundary_def button_action_def)

lemma keypad_strict:
  "\<forall>(k, r) \<in> set keypad_rects.
      (getKeypadInput x y = k \<longleftrightarrow> interior r x y)
      \<and> (on_boundary r x y \<longrightarrow> getKeypadInput x y = CHR 0x00)"
  unfolding keypad_rects_eq getKeypadInput_eq
  by (simp add: interior_def on_boundary_def)

text \<open>
  Claim C9. Every hit test uses the same rule on the edges: for each of the four
  buttons and each of the thirteen keypad rectangles, the test answers that button or
  key exactly for the points strictly inside the rectangle (strict inequalities on all
  four edges), and a point on the boundary of any of the rectangles matches nothing:
  the button chain gives no action and \<open>getKeypadInput\<close> returns 0.
\<close>

theorem hit_tests_strict:
  "(\<forall>(a, r) \<in> set button_rects.
      (button_action x y = a \<longleftrightarrow> interior r x y)
      \<and> (on_boundary r x y \<longrightarrow> button_action x y = NoAction))
   \<and> (\<forall>(k, r) \<in> set keypad_rects.
      (getKeypadInput x y = k \<longleftrightarrow> interior r x y)
      \<and> (on_boundary r x y \<longrightarrow> getKeypadInput x y = CHR 0x00))"
  using buttons_strict [of x y] keypad_strict [of x y] by blast

theorem hit_tests_strict_witness:
  "on_boundary (TARE_BUTTON_X, TARE_BUTTON_Y, BUTTON_W, BUTTON_H) 10 220
   \<and> button_action 10 220 = NoAction
   \<and> interior (RESET_BUTTON_X, RESET_BUTTON_Y, BUTTON_W, BUTTON_H) 231 239
   \<and> button_action 231 239 = Reset
   \<and> on_boundary (380, 190, 60, 40) 440 230
   \<and> getKeypadInput 440 230 = CHR 0x00
   \<and> interior (380, 190, 60, 40) 439 229
   \<and> getKeypadInput 439 229 = CHR ''E''"
  using hit_tests_strict [of 10 220] hit_tests_strict [of 231 239]
    hit_tests_strict [of 440 230] hit_tests_strict [of 439 229]
  by (simp add: button_rects_def keypad_rects_eq on_boundary_def interior_def)

section \<open>The main loop, mode by mode\<close>

lemma sense_enteredWeight: "enteredWeight (sense s w) = enteredWeight s"
  by (simp add: sense_def detect_def)

lemma sense_isCalibrating: "isCalibrating (sense s w) = isCalibrating s"
  by (simp add: sense_def detect_def)

lemma loop_Calibrate:
  "\<not> isCalibrating s \<Longrightarrow> button_action x y = Calibrate \<Longrightarrow>
     loop s w (Some (x, y)) rawValue = (sense s w)\<lparr>isCalibrating := True\<rparr>"
  by (simp add: loop_def Let_def)

lemma loop_calibrating:
  "isCalibrating s \<Longrightarrow> loop s w p rawValue = handleCalibration s p rawValue"
  by (simp add: loop_def)

lemma loop_normal_enteredWeight:
  "\<not> isCalibrating s \<Longrightarrow> enteredWeight (loop s w p rawValue) = enteredWeight s"
  by (simp add: loop_def Let_def sense_enteredWeight tare_action_def store_action_def
      reset_action_def split: option.splits action.splits)

lemma handleCalibration_key:
  "handleCalibration s (Some (x, y)) rawValue =
     (if getKeypadInput x y \<noteq> CHR 0x00 then keypress s (getKeypadInput x y) rawValue else s)"
  by (simp add: handleCalibration_def Let_def)

section \<open>Keypad entry\<close>

lemma buffer_ok_Nil: "buffer_ok []"
  by (simp add: buffer_ok_def)

lemma buffer_ok_digit: "buffer_ok buf \<Longrightarrow> is_digit c \<Longrightarrow> buffer_ok (buf @ [c])"
  by (auto simp: buffer_ok_def is_digit_def)

lemma count_list_0: "c \<notin> set buf \<Longrightarrow> count_list buf c = 0"
  by (induction buf) auto

lemma buffer_ok_point:
  "buffer_ok buf \<Longrightarrow> CHR ''.'' \<notin> set buf \<Longrightarrow> buffer_ok (buf @ [CHR ''.''])"
  by (simp add: buffer_ok_def count_list_0)

lemma keypress_buffer_ok:
  "buffer_ok (enteredWeight s) \<Longrightarrow> buffer_ok (enteredWeight (keypress s key rawValue))"
proof -
  assume ok: "buffer_ok (enteredWeight s)"
  consider (digit) "is_digit key"
    | (point) "\<not> is_digit key" "key = CHR ''.''"
    | (other) "\<not> is_digit key" "key \<noteq> CHR ''.''"
    by blast
  then show ?thesis
  proof cases
    case digit
    then have "enteredWeight (keypress s key rawValue) = enteredWeight s @ [key]"
      by (simp add: keypress_def)
    with ok digit show ?thesis by (simp add: buffer_ok_digit)
  next
    case point
    then have "enteredWeight (keypress s key rawValue) =
        (if CHR ''.'' \<notin> set (enteredWeight s) then enteredWeight s @ [CHR ''.'']
         else enteredWeight s)"
      by (simp add: keypress_def)
    with ok show ?thesis by (simp add: buffer_ok_point)
  next
    case other
    then have "enteredWeight (keypress s key rawValue) = enteredWeight s
        \<or> enteredWeight (keypress s key rawValue) = []"
      by (simp add: keypress_def Let_def)
    with ok show ?thesis by (auto simp: buffer_ok_Nil)
  qed
qed

lemma handleCalibration_buffer_ok:
  "buffer_ok (enteredWeight s) \<Longrightarrow> buffer_ok (enteredWeight (handleCalibration s p rawValue))"
  by (simp add: handleCalibration_def Let_def keypress_buffer_ok split: option.splits)

lemma loop_buffer_ok:
  "buffer_ok (enteredWeight s) \<Longrightarrow> buffer_ok (enteredWeight (loop s w p rawValue))"
proof (cases "isCalibrating s")
  case True
  assume "buffer_ok (enteredWeight s)"
  with True show ?thesis by (simp add: loop_calibrating handleCalibration_buffer_ok)
next
  case False
  assume "buffer_ok (enteredWeight s)"
  with False show ?thesis by (simp add: loop_normal_enteredWeight)
qed

lemma run_buffer_ok:
  "buffer_ok (enteredWeight s) \<Longrightarrow> buffer_ok (enteredWeight (run s ts))"
  by (induction s ts rule: run.induct) (simp_all add: loop_buffer_ok)

lemma setup_buffer_ok: "buffer_ok (enteredWeight (setup_sketch e))"
  by (simp add: setup_sketch_def Let_def buffer_ok_Nil)

lemma keypress_point:
  "keypress s (CHR ''.'') rawValue =
     (if CHR ''.'' \<in> set (enteredWeight s) then s
      else s\<lparr>enteredWeight := enteredWeight s @ ''.''\<rparr>)"
  by (simp add: keypress_def is_digit_def)

text \<open>
  From start-up: a touch on the Calibrate button, then touches on the keys
  \<open>1\<close>, \<open>.\<close>, \<open>2\<close>, \<open>.\<close>.
\<close>

lemma keypad_example:
  "enteredWeight (run (setup_sketch e)
      [(w0, Some (400, 220), r0), (w1, Some (270, 60), r1), (w2, Some (270, 210), r2),
       (w3, Some (340, 60), r3), (w4, Some (270, 210), r4)]) = ''1.2''"
proof -
  let ?s0 = "setup_sketch e"
  let ?s1 = "loop ?s0 w0 (Some (400, 220)) r0"
  have b: "button_action 400 220 = Calibrate"
    by (simp add: button_action_def)
  have s0: "\<not> isCalibrating ?s0" "enteredWeight ?s0 = []"
    by (simp_all add: setup_sketch_def Let_def)
  have s1: "isCalibrating ?s1" "enteredWeight ?s1 = []"
    using s0 by (simp_all add: loop_Calibrate [OF s0(1) b] sense_enteredWeight)
  let ?s2 = "loop ?s1 w1 (Some (270, 60)) r1"
  have s2: "isCalibrating ?s2" "enteredWeight ?s2 = ''1''"
    using s1 by (simp_all add: loop_calibrating handleCalibration_key getKeypadInput_eq
        keypress_def is_digit_def)
  let ?s3 = "loop ?s2 w2 (Some (270, 210)) r2"
  have s3: "isCalibrating ?s3" "enteredWeight ?s3 = ''1.''"
    using s2 by (simp_all add: loop_calibrating handleCalibration_key getKeypadInput_eq
        keypress_def is_digit_def)
  let ?s4 = "loop ?s3 w3 (Some (340, 60)) r3"
  have s4: "isCalibrating ?s4" "enteredWeight ?s4 = ''1.2''"
    using s3 by (simp_all add: loop_calibrating handleCalibration_key getKeypadInput_eq
        keypress_def is_digit_def)
  let ?s5 = "loop ?s4 w4 (Some (270, 210)) r4"
  have s5: "enteredWeight ?s5 = ''1.2''"
    using s4 by (simp add: loop_calibrating handleCalibration_key getKeypadInput_eq
        keypress_def is_digit_def)
  then show ?thesis by simp
qed

text \<open>
  Claim C6. In every state reached from start-up by any sequence of ticks, and from
  any state whose buffer is well formed, the entry buffer holds only digits and
  decimal points and at most one decimal point. The \<open>.\<close> key appends only when the
  buffer has no \<open>.\<close> yet and otherwise changes nothing. Entering calibration and
  touching the keys \<open>1\<close>, \<open>.\<close>, \<open>2\<close>, \<open>.\<close> leaves the buffer equal to \<open>1.2\<close>.
\<close>

theorem entry_buffer_invariant:
  "buffer_ok (enteredWeight (run (setup_sketch e) ts))
   \<and> (buffer_ok (enteredWeight s) \<longrightarrow> buffer_ok (enteredWeight (run s ts)))
   \<and> keypress s (CHR ''.'') rawValue =
        (if CHR ''.'' \<in> set (enteredWeight s) then s
         else s\<lparr>enteredWeight := enteredWeight s @ ''.''\<rparr>)
   \<and> enteredWeight (run (setup_sketch e)
        [(w0, Some (400, 220), r0), (w1, Some (270, 60), r1), (w2, Some (270, 210), r2),
         (w3, Some (340, 60), r3), (w4, Some (270, 210), r4)]) = ''1.2''"
  using run_buffer_ok [OF setup_buffer_ok, of e ts] run_buffer_ok [of s ts]
    keypress_point [of s rawValue] keypad_example [of e w0 r0 w1 r1 w2 r2 w3 r3 w4 r4]
  by blast

theorem entry_buffer_invariant_witness:
  "buffer_ok (enteredWeight (idle_state\<lparr>isCalibrating := True, enteredWeight := ''1.''\<rparr>))
   \<and> buffer_ok (enteredWeight (run (idle_state\<lparr>isCalibrating := True, enteredWeight := ''1.''\<rparr>)
        [(0, Some (270, 210), 0), (0, Some (340, 60), 0)]))
   \<and> enteredWeight (run (idle_state\<lparr>isCalibrating := True, enteredWeight := ''1.''\<rparr>)
        [(0, Some (270, 210), 0), (0, Some (340, 60), 0)]) = ''1.2''"
proof -
  let ?s = "idle_state\<lparr>isCalibrating := True, enteredWeight := ''1.''\<rparr>"
  let ?ts = "[(0, Some (270, 210), 0), (0, Some (340, 60), 0)]
               :: (float \<times> (int \<times> int) option \<times> float) list"
  have ok: "buffer_ok (enteredWeight ?s)"
    by (simp add: buffer_ok_def is_digit_def)
  have r: "enteredWeight (run ?s ?ts) = ''1.2''"
    by (simp add: loop_calibrating handleCalibration_key getKeypadInput_eq keypress_def
        is_digit_def)
  from entry_buffer_invariant [of fresh_eeprom ?ts ?s]
  have "buffer_ok (enteredWeight (run ?s ?ts))"
    using ok by blast
  with ok r show ?thesis by blast
qed

section \<open>Calibration mode\<close>

lemma keypress_exit:
  "isCalibrating s \<Longrightarrow>
     \<not> isCalibrating (keypress s key rawValue) \<longleftrightarrow> key = CHR ''E'' \<and> enteredWeight s \<noteq> []"
  by (simp add: keypress_def Let_def is_digit_def)

text \<open>
  Claim C10. While \<open>isCalibrating\<close> holds, a tick leaves calibration mode exactly when
  the touch hits the key \<open>E\<close> and the entry buffer is not empty. The key \<open>C\<close> empties the
  buffer and stays in the mode, \<open>E\<close> on an empty buffer changes nothing, and the commit
  that leaves the mode also empties the buffer.
\<close>

theorem calibration_exit_only_by_commit:
  "isCalibrating s \<Longrightarrow>
     (\<not> isCalibrating (loop s w p rawValue) \<longleftrightarrow>
        (case p of None \<Rightarrow> False
         | Some (x, y) \<Rightarrow> getKeypadInput x y = CHR ''E'' \<and> enteredWeight s \<noteq> []))
     \<and> (getKeypadInput x y = CHR ''C'' \<longrightarrow>
          isCalibrating (loop s w (Some (x, y)) rawValue)
          \<and> enteredWeight (loop s w (Some (x, y)) rawValue) = [])
     \<and> (getKeypadInput x y = CHR ''E'' \<and> enteredWeight s = [] \<longrightarrow>
          loop s w (Some (x, y)) rawValue = s)
     \<and> (getKeypadInput x y = CHR ''E'' \<and> enteredWeight s \<noteq> [] \<longrightarrow>
          \<not> isCalibrating (loop s w (Some (x, y)) rawValue)
          \<and> enteredWeight (loop s w (Some (x, y)) rawValue) = [])"
  by (auto simp: loop_calibrating handleCalibration_def Let_def keypress_exit keypress_def
      is_digit_def split: option.splits)

theorem calibration_exit_only_by_commit_witness:
  "isCalibrating (idle_state\<lparr>isCalibrating := True, enteredWeight := ''5''\<rparr>)
   \<and> getKeypadInput 400 200 = CHR ''E''
   \<and> enteredWeight (idle_state\<lparr>isCalibrating := True, enteredWeight := ''5''\<rparr>) \<noteq> []
   \<and> \<not> isCalibrating (loop (idle_state\<lparr>isCalibrating := True, enteredWeight := ''5''\<rparr>)
          0 (Some (400, 200)) 0x4608B800)
   \<and> enteredWeight (loop (idle_state\<lparr>isCalibrating := True, enteredWeight := ''5''\<rparr>)
          0 (Some (400, 200)) 0x4608B800) = []
   \<and> getKeypadInput 300 260 = CHR ''C''
   \<and> isCalibrating (loop (idle_state\<lparr>isCalibrating := True, enteredWeight := ''5''\<rparr>)
          0 (Some (300, 260)) 0x4608B800)
   \<and> enteredWeight (loop (idle_state\<lparr>isCalibrating := True, enteredWeight := ''5''\<rparr>)
          0 (Some (300, 260)) 0x4608B800) = []
   \<and> isCalibrating (idle_state\<lparr>isCalibrating := True\<rparr>)
   \<and> enteredWeight (idle_state\<lparr>isCalibrating := True\<rparr>) = []
   \<and> loop (idle_state\<lparr>isCalibrating := True\<rparr>) 0 (Some (400, 200)) 0x4608B800
       = idle_state\<lparr>isCalibrating := True\<rparr>"
proof -
  let ?s = "idle_state\<lparr>isCalibrating := True, enteredWeight := ''5''\<rparr>"
  let ?t = "idle_state\<lparr>isCalibrating := True\<rparr>"
  have c: "isCalibrating ?s" "isCalibrating ?t" by simp_all
  have k: "getKeypadInput 400 200 = CHR ''E''" "getKeypadInput 300 260 = CHR ''C''"
    by (simp_all add: getKeypadInput_eq)
  have b: "enteredWeight ?s \<noteq> []" "enteredWeight ?t = []"
    by (simp_all add: idle_state_def)
  from calibration_exit_only_by_commit
    [where s = ?s and w = 0 and p = "Some (400, 200)" and rawValue = "0x4608B800"
       and x = 400 and y = 200] c k b
  have e: "\<not> isCalibrating (loop ?s 0 (Some (400, 200)) 0x4608B800)
      \<and> enteredWeight (loop ?s 0 (Some (400, 200)) 0x4608B800) = []"
    by simp
  from calibration_exit_only_by_commit
    [where s = ?s and w = 0 and p = "Some (300, 260)" and rawValue = "0x4608B800"
       and x = 300 and y = 260] c k
  have cl: "isCalibrating (loop ?s 0 (Some (300, 260)) 0x4608B800)
      \<and> enteredWeight (loop ?s 0 (Some (300, 260)) 0x4608B800) = []"
    by simp
  from calibration_exit_only_by_commit
    [where s = ?t and w = 0 and p = "Some (400, 200)" and rawValue = "0x4608B800"
       and x = 400 and y = 200] c k b
  have em: "loop ?t 0 (Some (400, 200)) 0x4608B800 = ?t"
    by simp
  from c k b e cl em show ?thesis by blast
qed

section \<open>Tare\<close>

text \<open>
  Claim C8. The Tare branch, taken while \<open>load_detected\<close> holds, clears \<open>load_detected\<close>,
  \<open>last_weight\<close> and \<open>current_weight\<close> and leaves \<open>load_count\<close> and \<open>total_weight\<close> as
  they were. The same holds for the whole tick in which the Tare button is touched
  while the detector is in the Loaded state after this tick's sample: the counters
  after the tick are those before the tick.
\<close>

theorem tare_discards_pending_load:
  "(load_detected s \<longrightarrow>
      \<not> load_detected (tare_action s) \<and> last_weight (tare_action s) = 0
      \<and> current_weight (tare_action s) = 0
      \<and> load_count (tare_action s) = load_count s
      \<and> total_weight (tare_action s) = total_weight s)
   \<and> (\<not> isCalibrating s \<and> button_action x y = Tare \<and> load_detected (sense s w) \<longrightarrow>
      \<not> load_detected (loop s w (Some (x, y)) rawValue)
      \<and> last_weight (loop s w (Some (x, y)) rawValue) = 0
      \<and> current_weight (loop s w (Some (x, y)) rawValue) = 0
      \<and> load_count (loop s w (Some (x, y)) rawValue) = load_count s
      \<and> total_weight (loop s w (Some (x, y)) rawValue) = total_weight s)"
  by (auto simp: tare_action_def loop_def Let_def sense_def detect_def split: if_splits)

theorem tare_discards_pending_load_witness:
  "load_detected (idle_state\<lparr>load_detected := True, last_weight := 0x40A00000\<rparr>)
   \<and> load_count (tare_action (idle_state\<lparr>load_detected := True, last_weight := 0x40A00000\<rparr>))
       = load_count (idle_state\<lparr>load_detected := True, last_weight := 0x40A00000\<rparr>)
   \<and> last_weight (tare_action (idle_state\<lparr>load_detected := True, last_weight := 0x40A00000\<rparr>)) = 0
   \<and> \<not> isCalibrating idle_state \<and> button_action 50 220 = Tare
   \<and> load_detected (sense idle_state 0x40A00000)
   \<and> \<not> load_detected (loop idle_state 0x40A00000 (Some (50, 220)) 0)
   \<and> load_count (loop idle_state 0x40A00000 (Some (50, 220)) 0) = load_count idle_state
   \<and> total_weight (loop idle_state 0x40A00000 (Some (50, 220)) 0) = total_weight idle_state"
proof -
  let ?s = "idle_state\<lparr>load_detected := True, last_weight := 0x40A00000\<rparr>"
  have a: "load_detected ?s" by simp
  have b: "\<not> isCalibrating idle_state \<and> button_action 50 220 = Tare
           \<and> load_detected (sense idle_state 0x40A00000)"
    by (simp add: idle_state_def button_action_def sense_def detect_def fl_cmp_defs)
  from tare_discards_pending_load [of ?s 0 0 0 0] a
    tare_discards_pending_load [of idle_state 50 220 "0x40A00000" 0] b
  show ?thesis by simp
qed

section \<open>Float codec\<close>

lemma EEPROMWriteFloat_cells:
  "EEPROMWriteFloat e a v =
     e(a := get_byte v 0, a + 1 := get_byte v 1, a + 2 := get_byte v 2, a + 3 := get_byte v 3)"
  by (simp add: EEPROMWriteFloat_def write_float_loop.simps [of _ a v 0]
      write_float_loop.simps [of _ a v "Suc 0"] write_float_loop.simps [of _ a v "Suc (Suc 0)"]
      write_float_loop.simps [of _ a v "Suc (Suc (Suc 0))"]
      write_float_loop.simps [of _ a v "Suc (Suc (Suc (Suc 0)))"] EEPROM_update_apply
      numeral_2_eq_2 numeral_3_eq_3)

lemma EEPROMReadFloat_cells:
  "EEPROMReadFloat e a =
     set_byte (set_byte (set_byte (set_byte 0 0 (e a)) 1 (e (a + 1))) 2 (e (a + 2))) 3 (e (a + 3))"
  by (simp add: EEPROMReadFloat_def read_float_loop.simps [of e a _ 0]
      read_float_loop.simps [of e a _ "Suc 0"] read_float_loop.simps [of e a _ "Suc (Suc 0)"]
      read_float_loop.simps [of e a _ "Suc (Suc (Suc 0))"]
      read_float_loop.simps [of e a _ "Suc (Suc (Suc (Suc 0)))"] EEPROM_read_def
      numeral_2_eq_2 numeral_3_eq_3)

lemma byte_mask32: "(0xFF :: float) = mask 8"
  by (simp add: mask_eq_exp_minus_1)

lemma float_bytes_join:
  "set_byte (set_byte (set_byte (set_byte 0 0 (get_byte v 0)) 1 (get_byte v 1)) 2 (get_byte v 2))
     3 (get_byte v 3) = v"
  unfolding set_byte_def get_byte_def byte_mask32
proof (rule bit_word_eqI)
  fix n :: nat
  assume "n < LENGTH(32)"
  then consider "n < 8" | "8 \<le> n" "n < 16" | "16 \<le> n" "n < 24" | "24 \<le> n" "n < 32"
    by fastforce
  then show "bit ((((0 AND NOT (push_bit (8 * 0) (mask 8)) OR push_bit (8 * 0) (ucast (ucast (drop_bit (8 * 0) v) :: byte))) AND
           NOT (push_bit (8 * 1) (mask 8)) OR
           push_bit (8 * 1) (ucast (ucast (drop_bit (8 * 1) v) :: byte))) AND
          NOT (push_bit (8 * 2) (mask 8)) OR
          push_bit (8 * 2) (ucast (ucast (drop_bit (8 * 2) v) :: byte))) AND
         NOT (push_bit (8 * 3) (mask 8)) OR
         push_bit (8 * 3) (ucast (ucast (drop_bit (8 * 3) v) :: byte)) :: float) n = bit v n"
    by cases (auto simp: bit_simps)
qed

lemma EEPROMFloat_roundtrip: "EEPROMReadFloat (EEPROMWriteFloat e a v) a = v"
  unfolding EEPROMReadFloat_cells EEPROMWriteFloat_cells
  using float_bytes_join [of v] by simp

lemma EEPROMReadInt_cells:
  "EEPROMReadInt e a = push_bit 8 (ucast (e (a + 1)) :: int16) OR ucast (e a)"
  by (simp add: EEPROMReadInt_def EEPROM_read_def Let_def)

lemma reset_store:
  "eeprom_store (reset_action s) =
     EEPROMWriteFloat (EEPROMWriteInt (eeprom_store s) EEPROM_LOAD_COUNT_ADDR 0)
       EEPROM_TOTAL_WEIGHT_ADDR 0"
  by (simp add: reset_action_def Let_def)

lemma reset_reads:
  "EEPROMReadInt (eeprom_store (reset_action s)) EEPROM_LOAD_COUNT_ADDR = 0
   \<and> EEPROMReadFloat (eeprom_store (reset_action s)) EEPROM_TOTAL_WEIGHT_ADDR = 0"
proof -
  let ?e1 = "EEPROMWriteInt (eeprom_store s) EEPROM_LOAD_COUNT_ADDR 0"
  let ?e2 = "EEPROMWriteFloat ?e1 EEPROM_TOTAL_WEIGHT_ADDR 0"
  have f: "EEPROMReadFloat ?e2 EEPROM_TOTAL_WEIGHT_ADDR = 0"
    by (rule EEPROMFloat_roundtrip)
  have "EEPROMReadInt ?e2 EEPROM_LOAD_COUNT_ADDR = EEPROMReadInt ?e1 EEPROM_LOAD_COUNT_ADDR"
    by (simp add: EEPROMReadInt_cells EEPROMWriteFloat_cells)
  also have "\<dots> = 0"
    by (rule EEPROMInt_read_write)
  finally show ?thesis using f by (simp add: reset_store)
qed

section \<open>Reset\<close>

text \<open>
  Claim C4. The Reset branch leaves \<open>load_count\<close> and \<open>total_weight\<close> both zero in the
  state it returns; the two EEPROM writes of the branch come after both assignments
  and store the two zeros; the stored cells read back as 0 and +0.0, and \<open>setup\<close> on
  the EEPROM left by a Reset starts with \<open>load_count = 0\<close> and \<open>total_weight = 0\<close>.
  A tick in normal operation whose touch hits the Reset button is this branch applied
  after the sample has been processed.
\<close>

theorem reset_zeroes_and_persists:
  "load_count (reset_action s) = 0 \<and> total_weight (reset_action s) = 0
   \<and> eeprom_store (reset_action s) =
       EEPROMWriteFloat (EEPROMWriteInt (eeprom_store s) EEPROM_LOAD_COUNT_ADDR 0)
         EEPROM_TOTAL_WEIGHT_ADDR 0
   \<and> EEPROMReadInt (eeprom_store (reset_action s)) EEPROM_LOAD_COUNT_ADDR = 0
   \<and> EEPROMReadFloat (eeprom_store (reset_action s)) EEPROM_TOTAL_WEIGHT_ADDR = 0
   \<and> load_count (setup_sketch (eeprom_store (reset_action s))) = 0
   \<and> total_weight (setup_sketch (eeprom_store (reset_action s))) = 0
   \<and> (\<not> isCalibrating s \<and> button_action x y = Reset \<longrightarrow>
        loop s w (Some (x, y)) rawValue = reset_action (sense s w))"
proof -
  have a: "load_count (reset_action s) = 0 \<and> total_weight (reset_action s) = 0"
    by (simp add: reset_action_def Let_def)
  have b: "load_count (setup_sketch e) = EEPROMReadInt e EEPROM_LOAD_COUNT_ADDR
      \<and> total_weight (setup_sketch e) = EEPROMReadFloat e EEPROM_TOTAL_WEIGHT_ADDR" for e
    by (simp add: setup_sketch_def Let_def)
  have c: "\<not> isCalibrating s \<and> button_action x y = Reset \<longrightarrow>
        loop s w (Some (x, y)) rawValue = reset_action (sense s w)"
    by (simp add: loop_def Let_def)
  from a b [of "eeprom_store (reset_action s)"] c reset_store [of s] reset_reads [of s]
  show ?thesis by simp
qed

theorem reset_zeroes_and_persists_witness:
  "\<not> isCalibrating idle_state \<and> button_action 250 220 = Reset
   \<and> loop idle_state 0x40A00000 (Some (250, 220)) 0 = reset_action (sense idle_state 0x40A00000)
   \<and> load_count (setup_sketch (eeprom_store (reset_action (sense idle_state 0x40A00000)))) = 0
   \<and> total_weight (setup_sketch (eeprom_store (reset_action (sense idle_state 0x40A00000)))) = 0"
proof -
  have h: "\<not> isCalibrating idle_state \<and> button_action 250 220 = Reset"
    by (simp add: idle_state_def button_action_def)
  from reset_zeroes_and_persists [of idle_state 250 220 "0x40A00000" 0] h
    reset_zeroes_and_persists [of "sense idle_state 0x40A00000" 0 0 0 0]
  show ?thesis by blast
qed

section \<open>Start-up\<close>

lemma fl_key_zero: "fl_key f = 0 \<longleftrightarrow> fl_mag f = 0"
  by (simp add: fl_key_def)

lemma fl_zero_plain: "\<not> isnan 0" "fl_key 0 = 0" "fl_mag 0 = 0" "\<not> fl_sign 0"
  by (simp_all add: isnan_def fl_key_def fl_mag_def fl_sign_def)

lemma fl_eq_zero: "fl_eq f 0 \<longleftrightarrow> \<not> isnan f \<and> fl_mag f = 0"
  by (simp add: fl_eq_def fl_zero_plain fl_key_zero)

lemma default_calibration_factor_value:
  "fl_sign default_calibration_factor
   \<and> fl_units default_calibration_factor = 7050 * 2 ^ 149
   \<and> \<not> isnan default_calibration_factor \<and> \<not> isinf default_calibration_factor
   \<and> fl_mag default_calibration_factor \<noteq> 0"
  by (simp add: default_calibration_factor_def fl_sign_def fl_units_def fl_exp_def fl_frac_def
      fl_mag_def isnan_def isinf_def)

lemma inf_eeprom_read: "EEPROMReadFloat inf_eeprom EEPROM_CAL_FACTOR_ADDR = 0x7F800000"
  by (simp add: EEPROMReadFloat_cells inf_eeprom_def set_byte_def)

text \<open>
  Claim C7 as stated fails for infinity: with \<open>00 00 80 7F\<close> in the calibration cells
  the stored factor decodes to +infinity and \<open>setup\<close> keeps it.
\<close>

theorem setup_keeps_infinite_factor:
  "isinf (EEPROMReadFloat inf_eeprom EEPROM_CAL_FACTOR_ADDR)
   \<and> calibration_factor (setup_sketch inf_eeprom) = EEPROMReadFloat inf_eeprom EEPROM_CAL_FACTOR_ADDR
   \<and> calibration_factor (setup_sketch inf_eeprom) \<noteq> default_calibration_factor"
  by (simp add: setup_sketch_def Let_def inf_eeprom_read isinf_def isnan_def fl_mag_def fl_eq_zero
      default_calibration_factor_def)

text \<open>
  Claim C7, amended. \<open>setup\<close> replaces the stored calibration factor by the default
  \<open>-7050\<close> exactly when it decodes to NaN or to zero (of either sign); the default is
  neither NaN nor zero nor infinite; every other stored value, the two infinities
  included, is used as it is. \<open>setup\<close> has no error outcome.
\<close>

theorem setup_calibration_factor:
  "calibration_factor (setup_sketch e) =
     (if isnan (EEPROMReadFloat e EEPROM_CAL_FACTOR_ADDR)
         \<or> fl_mag (EEPROMReadFloat e EEPROM_CAL_FACTOR_ADDR) = 0
      then default_calibration_factor
      else EEPROMReadFloat e EEPROM_CAL_FACTOR_ADDR)
   \<and> \<not> isnan default_calibration_factor
   \<and> fl_mag default_calibration_factor \<noteq> 0
   \<and> \<not> isinf default_calibration_factor
   \<and> (isinf (EEPROMReadFloat e EEPROM_CAL_FACTOR_ADDR) \<longrightarrow>
        calibration_factor (setup_sketch e) = EEPROMReadFloat e EEPROM_CAL_FACTOR_ADDR)"
  using default_calibration_factor_value
  by (auto simp: setup_sketch_def Let_def fl_eq_zero isinf_def isnan_def)

theorem setup_calibration_factor_witness:
  "isinf (EEPROMReadFloat inf_eeprom EEPROM_CAL_FACTOR_ADDR)
   \<and> calibration_factor (setup_sketch inf_eeprom) = 0x7F800000
   \<and> isnan (EEPROMReadFloat fresh_eeprom EEPROM_CAL_FACTOR_ADDR)
   \<and> calibration_factor (setup_sketch fresh_eeprom) = default_calibration_factor"
proof -
  have i: "isinf (EEPROMReadFloat inf_eeprom EEPROM_CAL_FACTOR_ADDR)"
    by (simp add: inf_eeprom_read isinf_def fl_mag_def)
  have n: "isnan (EEPROMReadFloat fresh_eeprom EEPROM_CAL_FACTOR_ADDR)"
    by (simp add: EEPROMReadFloat_cells fresh_eeprom_def set_byte_def isnan_def fl_mag_def)
  from setup_calibration_factor [of inf_eeprom] i
  have "calibration_factor (setup_sketch inf_eeprom) = EEPROMReadFloat inf_eeprom EEPROM_CAL_FACTOR_ADDR"
    by blast
  moreover from setup_calibration_factor [of fresh_eeprom] n
  have "calibration_factor (setup_sketch fresh_eeprom) = default_calibration_factor"
    by presburger
  ultimately show ?thesis using i n by (simp add: inf_eeprom_read)
qed

section \<open>Load event detector\<close>

lemma positive_not_zero: "positive w \<Longrightarrow> \<not> is_zero w"
  by (auto simp: positive_def is_zero_def fl_gt_def fl_lt_def fl_eq_def)

lemma sense_fields:
  "sense s w =
     (if positive (noise_gate w) then
        s\<lparr>current_weight := noise_gate w, load_detected := True, last_weight := noise_gate w\<rparr>
      else if is_zero (noise_gate w) \<and> load_detected s then
        s\<lparr>current_weight := noise_gate w,
          total_weight := fadd (total_weight s) (last_weight s),
          load_count := load_count s + 1,
          last_weight := 0,
          load_detected := False\<rparr>
      else s\<lparr>current_weight := noise_gate w\<rparr>)"
  by (simp add: sense_def detect_def positive_def is_zero_def)

lemma loop_no_touch: "\<not> isCalibrating s \<Longrightarrow> loop s w None rawValue = sense s w"
  by (simp add: loop_def Let_def)

lemma run_samples_Cons:
  "run s (samples (w # ws)) = run (loop s w None 0) (samples ws)"
  by (simp add: samples_def)

lemma run_samples_track:
  "\<not> isCalibrating s \<Longrightarrow>
     total_weight (run s (samples ws)) =
       foldl fadd (total_weight s) (track (load_detected s) (last_weight s) (map noise_gate ws))
     \<and> load_count (run s (samples ws)) =
       load_count s + of_nat (length (track (load_detected s) (last_weight s) (map noise_gate ws)))"
proof (induction ws arbitrary: s)
  case Nil
  then show ?case by (simp add: samples_def)
next
  case (Cons w ws)
  let ?s1 = "sense s w"
  have nc: "\<not> isCalibrating ?s1" using Cons.prems by (simp add: sense_isCalibrating)
  have step: "run s (samples (w # ws)) = run ?s1 (samples ws)"
    using Cons.prems by (simp add: run_samples_Cons loop_no_touch)
  show ?case
    unfolding step using Cons.IH [OF nc]
    by (simp add: sense_fields positive_not_zero)
qed

lemma run_samples_isCalibrating:
  "\<not> isCalibrating s \<Longrightarrow> \<not> isCalibrating (run s (samples ws))"
proof (induction ws arbitrary: s)
  case Nil
  then show ?case by (simp add: samples_def)
next
  case (Cons w ws)
  then show ?case
    by (simp add: run_samples_Cons loop_no_touch sense_isCalibrating)
qed

lemma chunks_not_Nil: "chunks ws \<noteq> []"
  by (induction ws) (auto split: list.splits)

lemma chunks_zero_free: "\<forall>x \<in> set xs. \<not> is_zero x \<Longrightarrow> chunks xs = [xs]"
  by (induction xs) auto

lemma chunks_append_zero:
  "\<forall>x \<in> set xs. \<not> is_zero x \<Longrightarrow> is_zero g \<Longrightarrow> chunks (xs @ g # gs) = xs # chunks gs"
  by (induction xs) auto

lemma cycle_weights_zero_free: "\<forall>x \<in> set xs. \<not> is_zero x \<Longrightarrow> cycle_weights xs = []"
  by (simp add: cycle_weights_def chunks_zero_free)

lemma cycle_weights_append_zero:
  "\<forall>x \<in> set xs. \<not> is_zero x \<Longrightarrow> is_zero g \<Longrightarrow>
     cycle_weights (xs @ g # gs) =
       (if filter positive xs = [] then [] else [last (filter positive xs)]) @ cycle_weights gs"
  by (simp add: cycle_weights_def chunks_append_zero chunks_not_Nil)

lemma track_cycle_weights:
  "\<forall>x \<in> set xs. \<not> is_zero x \<Longrightarrow>
   ld = (filter positive xs \<noteq> []) \<Longrightarrow>
   (ld \<Longrightarrow> lw = last (filter positive xs)) \<Longrightarrow>
   track ld lw gs = cycle_weights (xs @ gs)"
proof (induction gs arbitrary: xs ld lw)
  case Nil
  then show ?case by (simp add: cycle_weights_zero_free)
next
  case (Cons g gs)
  consider (pos) "positive g" | (zero) "\<not> positive g" "is_zero g"
    | (ign) "\<not> positive g" "\<not> is_zero g"
    by blast
  then show ?case
  proof cases
    case pos
    have "track True g gs = cycle_weights ((xs @ [g]) @ gs)"
      using Cons.prems(1) pos by (intro Cons.IH) (auto simp: positive_not_zero)
    with pos show ?thesis by simp
  next
    case zero
    have t: "track False lw' gs = cycle_weights ([] @ gs)" for lw'
      by (intro Cons.IH) auto
    show ?thesis
      using zero Cons.prems t [of 0] t [of lw] by (auto simp: cycle_weights_append_zero)
  next
    case ign
    have "track ld lw gs = cycle_weights ((xs @ [g]) @ gs)"
      using Cons.prems ign by (intro Cons.IH) auto
    with ign show ?thesis by simp
  qed
qed

lemma track_Empty: "track False lw gs = cycle_weights gs"
  using track_cycle_weights [of "[]" False lw gs] by simp

lemma completed_runs_skip:
  "\<not> positive g \<Longrightarrow> completed_runs (g # rest) = completed_runs rest"
  by (cases rest) auto

lemma track_length_runs:
  "positive p \<Longrightarrow>
     length (track ld lw gs) =
       completed_runs ((if ld then [p] else []) @ filter counted gs)"
proof (induction gs arbitrary: ld lw)
  case Nil
  then show ?case by simp
next
  case (Cons g gs)
  consider (pos) "positive g" | (zero) "\<not> positive g" "is_zero g"
    | (ign) "\<not> positive g" "\<not> is_zero g"
    by blast
  then show ?case
  proof cases
    case pos
    have ih: "length (track True g gs) = completed_runs ([p] @ filter counted gs)"
      using Cons.IH [OF Cons.prems, of True g] by simp
    have c: "counted g" using pos by (simp add: counted_def)
    have a: "completed_runs (p # filter counted gs) = completed_runs (g # filter counted gs)"
      using Cons.prems pos by (cases "filter counted gs") (auto simp: positive_not_zero)
    show ?thesis
      using pos ih a c Cons.prems by (simp add: positive_not_zero)
  next
    case zero
    have ih: "length (track False 0 gs) = completed_runs (filter counted gs)"
      using Cons.IH [OF Cons.prems, of False 0] by simp
    have c: "counted g" using zero by (simp add: counted_def)
    show ?thesis
      using zero ih c Cons.prems Cons.IH [OF Cons.prems, of False lw]
      by (simp add: completed_runs_skip)
  next
    case ign
    have c: "\<not> counted g" using ign by (simp add: counted_def)
    show ?thesis
      using ign c Cons.IH [OF Cons.prems, of ld lw] by simp
  qed
qed

lemma filter_counted_all: "list_all counted gs \<Longrightarrow> filter counted gs = gs"
  by (induction gs) auto

lemma positive_one: "positive 0x3F800000"
  by (simp add: positive_def fl_cmp_defs)

lemma sint_add_of_nat:
  fixes a :: int16
  assumes "sint a + int n \<le> 32767"
  shows "sint (a + of_nat n) = sint a + int n"
proof -
  have lo: "- (2 ^ 15) \<le> sint a" using sint_ge [of a] by simp
  have "a + of_nat n = word_of_int (sint a + int n)"
    by simp
  then have "sint (a + of_nat n) = signed_take_bit 15 (sint a + int n)"
    by (simp only: sint_sbintrunc') simp
  also have "\<dots> = sint a + int n"
    using lo assms by (intro signed_take_bit_int_eq_self) auto
  finally show ?thesis .
qed

lemma gate_samples:
  "noise_gate 0x40A00000 = 0x40A00000" "noise_gate 0xBF800000 = 0xBF800000"
  "noise_gate 0x40C00000 = 0x40C00000" "noise_gate 0 = 0"
  "noise_gate 0x40000000 = 0x40000000" "noise_gate 0x41100000 = 0x41100000"
  "noise_gate 0x40800000 = 0x40800000" "noise_gate 0x3E800000 = 0"
  by (simp_all add: fl_cmp_defs)

lemma class_samples:
  "positive 0x40A00000" "\<not> positive 0xBF800000" "\<not> is_zero 0xBF800000"
  "positive 0x40C00000" "\<not> positive 0" "is_zero 0"
  "positive 0x40000000" "positive 0x41100000" "positive 0x40800000"
  by (simp_all add: positive_def is_zero_def fl_cmp_defs)

lemma idle_fields:
  "\<not> isCalibrating idle_state" "\<not> load_detected idle_state" "load_count idle_state = 0"
  "total_weight idle_state = 0" "last_weight idle_state = 0"
  by (simp_all add: idle_state_def)

text \<open>
  Claim C1 as stated fails when a sample is negative after the gate. On the samples
  5.0, -1.0, 0.0 the run of positive samples is followed by -1.0, not by a zero
  sample, yet the detector counts one load. On 5.0, -1.0, 6.0, 0.0 there are two
  maximal runs of positive samples with a zero sample later on, and the detector
  counts one load.
\<close>

theorem negative_sample_breaks_run_count:
  "load_count (run idle_state (samples [0x40A00000, 0xBF800000, 0])) = 1
   \<and> load_count idle_state + of_nat (completed_runs (map noise_gate [0x40A00000, 0xBF800000, 0])) = 0
   \<and> load_count (run idle_state (samples [0x40A00000, 0xBF800000, 0]))
       \<noteq> load_count idle_state
           + of_nat (completed_runs (map noise_gate [0x40A00000, 0xBF800000, 0]))
   \<and> load_count (run idle_state (samples [0x40A00000, 0xBF800000, 0x40C00000, 0])) = 1
   \<and> load_count idle_state
        + of_nat (runs_before_zero (map noise_gate [0x40A00000, 0xBF800000, 0x40C00000, 0])) = 2
   \<and> load_count (run idle_state (samples [0x40A00000, 0xBF800000, 0x40C00000, 0]))
       \<noteq> load_count idle_state
           + of_nat (runs_before_zero (map noise_gate [0x40A00000, 0xBF800000, 0x40C00000, 0]))"
proof -
  have a: "load_count (run idle_state (samples [0x40A00000, 0xBF800000, 0])) = 1"
    using run_samples_track [of idle_state "[0x40A00000, 0xBF800000, 0]"]
    by (simp add: idle_fields gate_samples class_samples)
  have b: "load_count (run idle_state (samples [0x40A00000, 0xBF800000, 0x40C00000, 0])) = 1"
    using run_samples_track [of idle_state "[0x40A00000, 0xBF800000, 0x40C00000, 0]"]
    by (simp add: idle_fields gate_samples class_samples)
  show ?thesis
    using a b by (simp add: idle_fields gate_samples class_samples)
qed

text \<open>
  Claim C1, amended. A sample that is neither positive nor zero after the gate
  (negative, or NaN) is ignored by the detector: it neither ends a run nor counts.
  From the Empty state, \<open>load_count\<close> increases by exactly 1 per maximal run of
  positive samples followed by a zero sample in the gated sequence with the ignored
  samples left out, however long the run is, and by nothing else; the increase is an
  increase of the integer value as long as 32767 is not exceeded. For a sequence
  without ignored samples this is the count of the claim as stated.
\<close>

theorem load_count_per_completed_run:
  "\<not> isCalibrating s \<Longrightarrow> \<not> load_detected s \<Longrightarrow>
     load_count (run s (samples ws)) =
       load_count s + of_nat (completed_runs (filter counted (map noise_gate ws)))
     \<and> (sint (load_count s) + int (completed_runs (filter counted (map noise_gate ws))) \<le> 32767 \<longrightarrow>
          sint (load_count (run s (samples ws))) =
            sint (load_count s) + int (completed_runs (filter counted (map noise_gate ws))))
     \<and> (list_all counted (map noise_gate ws) \<longrightarrow>
          load_count (run s (samples ws)) =
            load_count s + of_nat (completed_runs (map noise_gate ws)))"
proof -
  assume nc: "\<not> isCalibrating s" and ld: "\<not> load_detected s"
  let ?n = "completed_runs (filter counted (map noise_gate ws))"
  have "length (track False (last_weight s) (map noise_gate ws)) = ?n"
    using track_length_runs [OF positive_one, of False "last_weight s" "map noise_gate ws"]
    by simp
  with run_samples_track [OF nc, of ws] ld
  have main: "load_count (run s (samples ws)) = load_count s + of_nat ?n"
    by simp
  have "sint (load_count s) + int ?n \<le> 32767 \<longrightarrow>
      sint (load_count (run s (samples ws))) = sint (load_count s) + int ?n"
    unfolding main by (simp add: sint_add_of_nat)
  moreover have "list_all counted (map noise_gate ws) \<longrightarrow>
      load_count (run s (samples ws)) = load_count s + of_nat (completed_runs (map noise_gate ws))"
    using main by (simp add: filter_counted_all)
  ultimately show ?thesis using main by blast
qed

theorem load_count_per_completed_run_witness:
  "\<not> isCalibrating idle_state \<and> \<not> load_detected idle_state
   \<and> list_all counted (map noise_gate [0x40A00000, 0x40C00000, 0, 0, 0x40000000, 0, 0x40800000])
   \<and> completed_runs (map noise_gate [0x40A00000, 0x40C00000, 0, 0, 0x40000000, 0, 0x40800000]) = 2
   \<and> load_count (run idle_state
        (samples [0x40A00000, 0x40C00000, 0, 0, 0x40000000, 0, 0x40800000])) = 2
   \<and> sint (load_count (run idle_state
        (samples [0x40A00000, 0x40C00000, 0, 0, 0x40000000, 0, 0x40800000]))) = 2
   \<and> filter counted (map noise_gate [0x40A00000, 0xBF800000, 0]) = [0x40A00000, 0]
   \<and> load_count (run idle_state (samples [0x40A00000, 0xBF800000, 0])) = 1"
proof -
  let ?ws = "[0x40A00000, 0x40C00000, 0, 0, 0x40000000, 0, 0x40800000] :: float list"
  let ?vs = "[0x40A00000, 0xBF800000, 0] :: float list"
  have c: "list_all counted (map noise_gate ?ws)"
    by (simp add: gate_samples counted_def class_samples)
  have f: "filter counted (map noise_gate ?ws) = map noise_gate ?ws"
    using c by (rule filter_counted_all)
  have n: "completed_runs (map noise_gate ?ws) = 2"
    by (simp add: gate_samples class_samples positive_not_zero)
  have g: "filter counted (map noise_gate ?vs) = [0x40A00000, 0]"
    by (simp add: gate_samples counted_def class_samples)
  have m: "completed_runs [0x40A00000, 0] = 1"
    by (simp add: class_samples)
  from load_count_per_completed_run [OF idle_fields(1) idle_fields(2), of ?ws]
  have a: "load_count (run idle_state (samples ?ws)) = 2
      \<and> sint (load_count (run idle_state (samples ?ws))) = 2"
    unfolding f n by (simp add: idle_fields)
  from load_count_per_completed_run [OF idle_fields(1) idle_fields(2), of ?vs]
  have b: "load_count (run idle_state (samples ?vs)) = 1"
    unfolding g m by (simp add: idle_fields)
  from idle_fields(1) idle_fields(2) c n a g b show ?thesis by blast
qed

lemma fl_value_samples:
  "fl_value 0x4B800000 = 2 ^ 173" "fl_value 0x3F800000 = 2 ^ 149"
  "fl_value 0x4B800001 = 2 ^ 173 + 2 ^ 150"
  "fl_value 0x41200000 = 10 * 2 ^ 149" "fl_value 0x40800000 = 4 * 2 ^ 149"
  "fl_value 0x40A00000 = 5 * 2 ^ 149" "fl_value 0x41600000 = 14 * 2 ^ 149"
  "fl_value 0x41980000 = 19 * 2 ^ 149"
  by (simp_all add: fl_value_def fl_units_def fl_exp_def fl_frac_def fl_mag_def fl_sign_def)

lemma fl_finite_samples:
  "fl_finite 0x4B800000" "fl_finite 0x3F800000" "fl_finite 0x4B800001" "fl_finite 0x41200000"
  "fl_finite 0x40800000" "fl_finite 0x40A00000"
  by (simp_all add: fl_finite_def fl_mag_def)

lemma gate_one: "noise_gate 0x3F800000 = 0x3F800000"
  by (simp add: fl_cmp_defs)

text \<open>
  Claim C2 as stated fails in float arithmetic. From a total of 16777216.0, a completed
  load cycle whose last positive sample is 1.0 leaves \<open>total_weight\<close> at 16777216.0:
  the total is not its initial value plus the sum of the cycle weights.
\<close>

theorem rounded_total_differs_from_sum:
  "\<not> isCalibrating full_total_state \<and> \<not> load_detected full_total_state
   \<and> cycle_weights (map noise_gate [0x3F800000, 0]) = [0x3F800000]
   \<and> fl_value (total_weight full_total_state) = 2 ^ 173
   \<and> sum_list (map fl_value (cycle_weights (map noise_gate [0x3F800000, 0]))) = 2 ^ 149
   \<and> total_weight (run full_total_state (samples [0x3F800000, 0])) = 0x4B800000
   \<and> fl_value (total_weight (run full_total_state (samples [0x3F800000, 0]))) = 2 ^ 173
   \<and> fl_value (total_weight (run full_total_state (samples [0x3F800000, 0])))
       \<noteq> fl_value (total_weight full_total_state)
           + sum_list (map fl_value (cycle_weights (map noise_gate [0x3F800000, 0])))"
proof -
  have s: "\<not> isCalibrating full_total_state" "\<not> load_detected full_total_state"
    "total_weight full_total_state = 0x4B800000" "last_weight full_total_state = 0"
    by (simp_all add: full_total_state_def idle_state_def)
  have c: "cycle_weights (map noise_gate [0x3F800000, 0]) = [0x3F800000]"
    by (simp add: cycle_weights_def gate_one positive_one gate_samples class_samples
        positive_not_zero)
  have t: "total_weight (run full_total_state (samples [0x3F800000, 0])) = 0x4B800000"
    using run_samples_track [of full_total_state "[0x3F800000, 0]"]
    by (simp add: s gate_one positive_one gate_samples class_samples fadd_tie_to_even)
  show ?thesis
    unfolding t c using s by (simp add: fl_value_samples)
qed

lemma fadd_10_4: "fadd 0x41200000 0x40800000 = 0x41600000"
proof -
  have u: "fl_units 0x41200000 = 10 * 2 ^ 149" "fl_units 0x40800000 = 4 * 2 ^ 149"
    by (simp_all add: fl_units_def fl_exp_def fl_frac_def fl_mag_def)
  have q: "(14 * 2 ^ 149 :: nat) div 1 = 14 * 2 ^ 149" by simp
  have nb: "nbits (14 * 2 ^ 149) = 153" by (simp add: nbits.simps)
  have r: "round_units (14 * 2 ^ 149) 1 = 0x41600000"
    unfolding round_units_def q nb by (simp add: rne_def Let_def)
  have sg: "\<not> fl_sign 0x41200000" "\<not> fl_sign 0x40800000" "\<not> isnan 0x41200000"
    "\<not> isnan 0x40800000" "\<not> isinf 0x41200000" "\<not> isinf 0x40800000"
    by (simp_all add: fl_sign_def isnan_def isinf_def fl_mag_def)
  show ?thesis
    unfolding fadd_def u Let_def using r sg by (simp add: mk_float_def)
qed

lemma fadd_14_5: "fadd 0x41600000 0x40A00000 = 0x41980000"
proof -
  have u: "fl_units 0x41600000 = 14 * 2 ^ 149" "fl_units 0x40A00000 = 5 * 2 ^ 149"
    by (simp_all add: fl_units_def fl_exp_def fl_frac_def fl_mag_def)
  have q: "(19 * 2 ^ 149 :: nat) div 1 = 19 * 2 ^ 149" by simp
  have nb: "nbits (19 * 2 ^ 149) = 154" by (simp add: nbits.simps)
  have r: "round_units (19 * 2 ^ 149) 1 = 0x41980000"
    unfolding round_units_def q nb by (simp add: rne_def Let_def)
  have sg: "\<not> fl_sign 0x41600000" "\<not> fl_sign 0x40A00000" "\<not> isnan 0x41600000"
    "\<not> isnan 0x40A00000" "\<not> isinf 0x41600000" "\<not> isinf 0x40A00000"
    by (simp_all add: fl_sign_def isnan_def isinf_def fl_mag_def)
  show ?thesis
    unfolding fadd_def u Let_def using r sg by (simp add: mk_float_def)
qed

lemma representable_14_19: "representable (14 * 2 ^ 149)" "representable (19 * 2 ^ 149)"
proof -
  have nb: "nbits (14 * 2 ^ 149) = 153" "nbits (19 * 2 ^ 149) = 154"
    by (simp_all add: nbits.simps)
  have a: "nat \<bar>14 * 2 ^ 149\<bar> = 14 * 2 ^ 149" "nat \<bar>19 * 2 ^ 149\<bar> = 19 * 2 ^ 149"
    by simp_all
  show "representable (14 * 2 ^ 149)"
    unfolding representable_def Let_def a nb by simp
  show "representable (19 * 2 ^ 149)"
    unfolding representable_def Let_def a nb by simp
qed

text \<open>
  Claim C2, amended. From the Empty state, after any sequence of samples \<open>total_weight\<close> is
  the result of adding the weights of the completed load cycles to its initial value,
  one after the other in the order of completion, with the float addition of the code;
  the weight of a cycle is the last positive gated sample in it (not the first, not the
  largest), because every tick with a positive gated sample overwrites \<open>last_weight\<close>
  with that sample; \<open>load_count\<close> has grown by the number of these cycles. The float
  addition is correctly rounded: for finite operands and a finite result no binary32
  value is nearer to the exact sum than the result. When the initial value and the
  weights are finite and every partial sum fits a binary32 value, \<open>total_weight\<close> is
  exactly its initial value plus the sum of the weights.
\<close>

theorem total_weight_sums_last_samples:
  "\<not> isCalibrating s \<Longrightarrow> \<not> load_detected s \<Longrightarrow>
     total_weight (run s (samples ws)) =
       foldl fadd (total_weight s) (cycle_weights (map noise_gate ws))
     \<and> load_count (run s (samples ws)) =
       load_count s + of_nat (length (cycle_weights (map noise_gate ws)))
     \<and> (positive (noise_gate w) \<longrightarrow>
          last_weight (loop (run s (samples ws)) w None rawValue) = noise_gate w
          \<and> load_detected (loop (run s (samples ws)) w None rawValue))
     \<and> (fl_finite a \<and> fl_finite b \<and> fl_finite (fadd a b) \<longrightarrow>
          \<bar>fl_value (fadd a b) - (fl_value a + fl_value b)\<bar>
            \<le> \<bar>fl_value x - (fl_value a + fl_value b)\<bar>)
     \<and> (fl_finite (total_weight s)
          \<and> list_all fl_finite (cycle_weights (map noise_gate ws))
          \<and> sums_representable (fl_value (total_weight s))
                (map fl_value (cycle_weights (map noise_gate ws))) \<longrightarrow>
          fl_finite (total_weight (run s (samples ws)))
          \<and> fl_value (total_weight (run s (samples ws))) =
              fl_value (total_weight s)
                + sum_list (map fl_value (cycle_weights (map noise_gate ws))))"
proof -
  assume nc: "\<not> isCalibrating s" and ld: "\<not> load_detected s"
  let ?cw = "cycle_weights (map noise_gate ws)"
  have "\<not> isCalibrating (run s (samples ws))"
    using nc by (simp add: run_samples_isCalibrating)
  then have "loop (run s (samples ws)) w None rawValue = sense (run s (samples ws)) w"
    by (rule loop_no_touch)
  then have over: "positive (noise_gate w) \<longrightarrow>
          last_weight (loop (run s (samples ws)) w None rawValue) = noise_gate w
          \<and> load_detected (loop (run s (samples ws)) w None rawValue)"
    by (simp add: sense_fields)
  have acc: "total_weight (run s (samples ws)) = foldl fadd (total_weight s) ?cw"
    and cnt: "load_count (run s (samples ws)) = load_count s + of_nat (length ?cw)"
    using run_samples_track [OF nc, of ws] ld by (simp_all add: track_Empty)
  have near: "fl_finite a \<and> fl_finite b \<and> fl_finite (fadd a b) \<longrightarrow>
          \<bar>fl_value (fadd a b) - (fl_value a + fl_value b)\<bar>
            \<le> \<bar>fl_value x - (fl_value a + fl_value b)\<bar>"
    using fadd_nearest [of a b x] by blast
  have exact: "fl_finite (total_weight s) \<and> list_all fl_finite ?cw
          \<and> sums_representable (fl_value (total_weight s)) (map fl_value ?cw) \<longrightarrow>
          fl_finite (total_weight (run s (samples ws)))
          \<and> fl_value (total_weight (run s (samples ws))) =
              fl_value (total_weight s) + sum_list (map fl_value ?cw)"
    unfolding acc using foldl_fadd_exact [of "total_weight s" ?cw] by blast
  from acc cnt over near exact show ?thesis by blast
qed

theorem total_weight_sums_last_samples_witness:
  "\<not> isCalibrating some_total_state \<and> \<not> load_detected some_total_state
   \<and> cycle_weights (map noise_gate [0x40000000, 0x41100000, 0x40800000, 0, 0x40A00000, 0])
       = [0x40800000, 0x40A00000]
   \<and> fl_finite (total_weight some_total_state)
   \<and> list_all fl_finite [0x40800000, 0x40A00000]
   \<and> sums_representable (fl_value (total_weight some_total_state))
        (map fl_value [0x40800000, 0x40A00000])
   \<and> fl_value (total_weight some_total_state) = 10 * 2 ^ 149
   \<and> fl_value (total_weight (run some_total_state
        (samples [0x40000000, 0x41100000, 0x40800000, 0, 0x40A00000, 0]))) = 19 * 2 ^ 149
   \<and> total_weight (run some_total_state
        (samples [0x40000000, 0x41100000, 0x40800000, 0, 0x40A00000, 0])) = 0x41980000
   \<and> load_count (run some_total_state
        (samples [0x40000000, 0x41100000, 0x40800000, 0, 0x40A00000, 0])) = 2
   \<and> positive (noise_gate 0x40C00000)
   \<and> last_weight (loop (run some_total_state
        (samples [0x40000000, 0x41100000, 0x40800000, 0, 0x40A00000, 0])) 0x40C00000 None 0)
       = 0x40C00000
   \<and> fl_finite 0x4B800000 \<and> fl_finite 0x3F800000 \<and> fl_finite (fadd 0x4B800000 0x3F800000)
   \<and> \<bar>fl_value (fadd 0x4B800000 0x3F800000) - (fl_value 0x4B800000 + fl_value 0x3F800000)\<bar>
       \<le> \<bar>fl_value 0x4B800001 - (fl_value 0x4B800000 + fl_value 0x3F800000)\<bar>"
proof -
  let ?ws = "[0x40000000, 0x41100000, 0x40800000, 0, 0x40A00000, 0] :: float list"
  have s: "\<not> isCalibrating some_total_state" "\<not> load_detected some_total_state"
    "total_weight some_total_state = 0x41200000" "load_count some_total_state = 0"
    by (simp_all add: some_total_state_def idle_state_def)
  have c: "cycle_weights (map noise_gate ?ws) = [0x40800000, 0x40A00000]"
    by (simp add: cycle_weights_def gate_samples class_samples positive_not_zero)
  have f: "fl_finite (total_weight some_total_state)" "list_all fl_finite [0x40800000, 0x40A00000]"
    by (simp_all add: s fl_finite_samples)
  have r: "sums_representable (fl_value (total_weight some_total_state))
        (map fl_value [0x40800000, 0x40A00000])"
    using representable_14_19 by (simp add: s fl_value_samples)
  have p: "positive (noise_gate 0x40C00000)"
    by (simp add: gate_samples class_samples)
  have n: "fl_finite 0x4B800000 \<and> fl_finite 0x3F800000 \<and> fl_finite (fadd 0x4B800000 0x3F800000)"
    by (simp add: fadd_tie_to_even fl_finite_samples)
  note t = total_weight_sums_last_samples
    [OF s(1) s(2), where ws = ?ws and w = "0x40C00000" and rawValue = 0
       and a = "0x4B800000" and b = "0x3F800000" and x = "0x4B800001"]
  from t have acc: "total_weight (run some_total_state (samples ?ws)) = 0x41980000"
    unfolding c by (simp add: s fadd_10_4 fadd_14_5)
  from t have cnt: "load_count (run some_total_state (samples ?ws)) = 2"
    unfolding c by (simp add: s)
  from t p have lw: "last_weight (loop (run some_total_state (samples ?ws)) 0x40C00000 None 0)
       = 0x40C00000"
    by (simp add: gate_samples)
  from t n have nr: "\<bar>fl_value (fadd 0x4B800000 0x3F800000) - (fl_value 0x4B800000 + fl_value 0x3F800000)\<bar>
       \<le> \<bar>fl_value 0x4B800001 - (fl_value 0x4B800000 + fl_value 0x3F800000)\<bar>"
    by blast
  from t f r have "fl_value (total_weight (run some_total_state (samples ?ws))) =
      fl_value (total_weight some_total_state)
        + sum_list (map fl_value (cycle_weights (map noise_gate ?ws)))"
    unfolding c by blast
  then have ex: "fl_value (total_weight (run some_total_state (samples ?ws))) = 19 * 2 ^ 149"
    unfolding c by (simp add: s fl_value_samples)
  have v: "fl_value (total_weight some_total_state) = 10 * 2 ^ 149"
    by (simp add: s fl_value_samples)
  from s(1) s(2) c f r v ex acc cnt p lw n nr show ?thesis by blast
qed

section \<open>Calibration commit\<close>

lemma toFloat_0: "toFloat ''0'' = 0"
  by (simp add: toFloat_def is_digit_def Let_def)

lemma fdiv_8750_0: "fdiv 0x4608B800 0 = 0x7F800000"
  by (simp add: fdiv_def Let_def isnan_def isinf_def fl_mag_def fl_sign_def mk_float_def)

lemma keypress_commit:
  "enteredWeight s \<noteq> [] \<Longrightarrow>
     keypress s (CHR ''E'') rawValue =
       s\<lparr>calibration_factor := fdiv rawValue (toFloat (enteredWeight s)),
         eeprom_store := EEPROMWriteFloat (eeprom_store s) EEPROM_CAL_FACTOR_ADDR
                           (fdiv rawValue (toFloat (enteredWeight s))),
         isCalibrating := False,
         enteredWeight := []\<rparr>"
  by (simp add: keypress_def is_digit_def Let_def)

text \<open>
  Claim C3 asks that a commit with the entry \<open>0\<close> is rejected and leaves the
  calibration factor unchanged in memory and in the EEPROM. The commit of the sketch
  is not guarded against a known weight of zero: with the entry \<open>0\<close>, the raw
  average 8750.0 and the key \<open>E\<close>, the factor becomes \<open>8750.0 / 0.0\<close>, which is
  +infinity; it replaces the factor \<open>-7050\<close> in memory, is written to the calibration
  cells of the EEPROM, and calibration mode is left.
\<close>

theorem zero_weight_commit_overwrites_factor:
  "isCalibrating zero_entry_state
   \<and> enteredWeight zero_entry_state = ''0''
   \<and> calibration_factor zero_entry_state = default_calibration_factor
   \<and> getKeypadInput 400 200 = CHR ''E''
   \<and> toFloat (enteredWeight zero_entry_state) = 0
   \<and> calibration_factor (loop zero_entry_state 0 (Some (400, 200)) 0x4608B800) = 0x7F800000
   \<and> isinf (calibration_factor (loop zero_entry_state 0 (Some (400, 200)) 0x4608B800))
   \<and> EEPROMReadFloat (eeprom_store (loop zero_entry_state 0 (Some (400, 200)) 0x4608B800))
        EEPROM_CAL_FACTOR_ADDR = 0x7F800000
   \<and> EEPROMReadFloat (eeprom_store zero_entry_state) EEPROM_CAL_FACTOR_ADDR \<noteq> 0x7F800000
   \<and> \<not> isCalibrating (loop zero_entry_state 0 (Some (400, 200)) 0x4608B800)"
proof -
  have k: "getKeypadInput 400 200 = CHR ''E''"
    by (simp add: getKeypadInput_eq)
  have z: "isCalibrating zero_entry_state" "enteredWeight zero_entry_state = ''0''"
    "calibration_factor zero_entry_state = default_calibration_factor"
    "eeprom_store zero_entry_state = fresh_eeprom"
    by (simp_all add: zero_entry_state_def idle_state_def)
  have l: "loop zero_entry_state 0 (Some (400, 200)) 0x4608B800 =
      zero_entry_state\<lparr>calibration_factor := 0x7F800000,
         eeprom_store := EEPROMWriteFloat fresh_eeprom EEPROM_CAL_FACTOR_ADDR 0x7F800000,
         isCalibrating := False,
         enteredWeight := []\<rparr>"
    by (simp add: loop_calibrating z handleCalibration_key k keypress_commit toFloat_0 fdiv_8750_0)
  have old: "EEPROMReadFloat fresh_eeprom EEPROM_CAL_FACTOR_ADDR \<noteq> 0x7F800000"
    by (simp add: EEPROMReadFloat_cells fresh_eeprom_def set_byte_def)
  show ?thesis
    unfolding l using k z old
    by (simp add: toFloat_0 EEPROMFloat_roundtrip isinf_def fl_mag_def)
qed

text \<open>The valid commit: entry \<open>12.5\<close> and raw average 8750.0 give the factor 700.0.\<close>

lemma decimal_125: "decimal 0 ''125'' = 125"
  by simp

lemma q_12_5: "(125 * 2 ^ 149) div 10 = (25 * 2 ^ 148 :: nat)"
  by simp

lemma nbits_12_5: "nbits (25 * 2 ^ 148) = 153"
  by (simp add: nbits.simps)

lemma round_12_5: "round_units (125 * 2 ^ 149) (10 ^ 1) = 0x41480000"
  unfolding round_units_def power_one_right q_12_5 nbits_12_5 by (simp add: rne_def Let_def)

lemma toFloat_12_5: "toFloat ''12.5'' = 0x41480000"
  using round_12_5 by (simp add: toFloat_def Let_def is_digit_def mk_float_def)

lemma units_8750: "fl_units 0x4608B800 = 8750 * 2 ^ 149"
  by (simp add: fl_units_def fl_exp_def fl_frac_def fl_mag_def)

lemma units_12_5: "fl_units 0x41480000 = 25 * 2 ^ 148"
  by (simp add: fl_units_def fl_exp_def fl_frac_def fl_mag_def)

lemma units_700: "fl_units 0x442F0000 = 700 * 2 ^ 149"
  by (simp add: fl_units_def fl_exp_def fl_frac_def fl_mag_def)

lemma q_700: "(8750 * 2 ^ 149 * 2 ^ 149) div (25 * 2 ^ 148) = (700 * 2 ^ 149 :: nat)"
  by simp

lemma nbits_700: "nbits (700 * 2 ^ 149) = 159"
  by (simp add: nbits.simps)

lemma round_700: "round_units (8750 * 2 ^ 149 * 2 ^ 149) (25 * 2 ^ 148) = 0x442F0000"
  unfolding round_units_def q_700 nbits_700 by (simp add: rne_def Let_def)

lemma fdiv_8750_12_5: "fdiv 0x4608B800 0x41480000 = 0x442F0000"
  unfolding fdiv_def units_8750 units_12_5 round_700
  by (simp add: Let_def isnan_def isinf_def fl_mag_def fl_sign_def mk_float_def)

lemma valid_commit_example:
  "calibration_factor
     (loop (idle_state\<lparr>isCalibrating := True, enteredWeight := ''12.5''\<rparr>) 0 (Some (400, 200)) 0x4608B800)
     = 0x442F0000
   \<and> EEPROMReadFloat (eeprom_store
     (loop (idle_state\<lparr>isCalibrating := True, enteredWeight := ''12.5''\<rparr>) 0 (Some (400, 200)) 0x4608B800))
       EEPROM_CAL_FACTOR_ADDR = 0x442F0000
   \<and> \<not> fl_sign 0x442F0000 \<and> fl_units 0x442F0000 = 700 * 2 ^ 149"
proof -
  let ?s = "idle_state\<lparr>isCalibrating := True, enteredWeight := ''12.5''\<rparr>"
  have k: "getKeypadInput 400 200 = CHR ''E''"
    by (simp add: getKeypadInput_eq)
  have l: "loop ?s 0 (Some (400, 200)) 0x4608B800 =
      ?s\<lparr>calibration_factor := 0x442F0000,
         eeprom_store := EEPROMWriteFloat (eeprom_store ?s) EEPROM_CAL_FACTOR_ADDR 0x442F0000,
         isCalibrating := False,
         enteredWeight := []\<rparr>"
    by (simp add: loop_calibrating handleCalibration_key k keypress_commit toFloat_12_5 fdiv_8750_12_5)
  show ?thesis
    unfolding l by (simp add: EEPROMFloat_roundtrip units_700 fl_sign_def)
qed

end
